theory Spec2Isabelle
  imports Complex_Main "HOL-Library.Log_Nat"
begin

section \<open>JavaScript Numbers\<close>

text \<open>
  The handlers of \<^verbatim>\<open>server.js\<close> compute with JavaScript Numbers, which are IEEE 754
  binary64 values. A Number is a finite value (a rational that binary64 can represent),
  \<open>NaN\<close> or one of the two infinities. An arithmetic operation on finite values is the
  exact operation on the rationals followed by the rounding \<open>fl\<close> of binary64: to the
  nearest representable value, a tie going to the even significand, with gradual
  underflow below \<open>2\<^sup>-\<^sup>1\<^sup>0\<^sup>2\<^sup>2\<close> and overflow to an infinity from
  \<open>2\<^sup>1\<^sup>0\<^sup>2\<^sup>4 - 2\<^sup>9\<^sup>7\<^sup>0\<close> on.

  The two zeros of binary64 are one value here. The handlers cannot tell them apart: a
  sum that starts from the literal \<open>0\<close> is never the negative zero, so every zero
  divisor is the positive one; \<open>-0\<close> is falsy like \<open>0\<close>, \<open>-0 > 0\<close> is false,
  \<^verbatim>\<open>Math.abs(-0)\<close> is \<open>0\<close> and JSON writes both zeros as \<^verbatim>\<open>0\<close>.
\<close>

datatype jsnum = Fin rat | NaN | PInf | NInf

text \<open>
  \<open>ilog2 a\<close> is the exponent of the power of two at or just below a positive \<open>a\<close>,
  \<open>scale2 y e\<close> is \<open>y\<close> times the \<open>e\<close>-th power of two, and \<open>round_even\<close> rounds
  to the nearest integer, a tie going to the even one.
\<close>

definition ilog2 :: "rat \<Rightarrow> int" where
  "ilog2 a = (if 1 \<le> a then bitlen \<lfloor>a\<rfloor> - 1 else - bitlen (\<lceil>1 / a\<rceil> - 1))"

definition scale2 :: "rat \<Rightarrow> int \<Rightarrow> rat" where
  "scale2 y e = (if 0 \<le> e then y * 2 ^ nat e else y / 2 ^ nat (- e))"

definition round_even :: "rat \<Rightarrow> int" where
  "round_even y =
     (let f = \<lfloor>y\<rfloor>; r = y - of_int f
      in if r < 1 / 2 then f else if 1 / 2 < r then f + 1 else if even f then f else f + 1)"

text \<open>
  The rounding of binary64. The significand has 53 bits, so a value with leading exponent
  \<open>ilog2 a\<close> is rounded to a multiple of the power of two with exponent
  \<open>ilog2 a - 52\<close>, and of \<open>2\<^sup>-\<^sup>1\<^sup>0\<^sup>7\<^sup>4\<close> in the subnormal range; a rounded value
  of \<open>2\<^sup>1\<^sup>0\<^sup>2\<^sup>4\<close> or more is an infinity.
\<close>

definition fl :: "rat \<Rightarrow> jsnum" where
  "fl x =
     (if x = 0 then Fin 0
      else
        (let a = \<bar>x\<bar>;
             e = max (ilog2 a - 52) (- 1074);
             v = scale2 (of_int (round_even (scale2 a (- e)))) e
         in if 2 ^ 1024 \<le> v then (if x < 0 then NInf else PInf)
            else Fin (if x < 0 then - v else v)))"

fun js_add :: "jsnum \<Rightarrow> jsnum \<Rightarrow> jsnum" where
  "js_add (Fin a) (Fin b) = fl (a + b)"
| "js_add NaN _ = NaN"
| "js_add _ NaN = NaN"
| "js_add PInf NInf = NaN"
| "js_add NInf PInf = NaN"
| "js_add PInf _ = PInf"
| "js_add _ PInf = PInf"
| "js_add NInf _ = NInf"
| "js_add _ NInf = NInf"

fun js_neg :: "jsnum \<Rightarrow> jsnum" where
  "js_neg (Fin a) = Fin (- a)"
| "js_neg NaN = NaN"
| "js_neg PInf = NInf"
| "js_neg NInf = PInf"

definition js_sub :: "jsnum \<Rightarrow> jsnum \<Rightarrow> jsnum" where
  "js_sub a b = js_add a (js_neg b)"

text \<open>The sign of a Number that is not \<open>NaN\<close>: \<open>-1\<close>, \<open>0\<close> or \<open>1\<close>.\<close>

fun js_sign :: "jsnum \<Rightarrow> int" where
  "js_sign (Fin a) = (if a < 0 then - 1 else if a = 0 then 0 else 1)"
| "js_sign NaN = 0"
| "js_sign PInf = 1"
| "js_sign NInf = - 1"

definition inf_of_sign :: "int \<Rightarrow> jsnum" where
  "inf_of_sign s = (if s < 0 then NInf else PInf)"

fun js_mul :: "jsnum \<Rightarrow> jsnum \<Rightarrow> jsnum" where
  "js_mul (Fin a) (Fin b) = fl (a * b)"
| "js_mul NaN _ = NaN"
| "js_mul _ NaN = NaN"
| "js_mul a b =
     (if js_sign a = 0 \<or> js_sign b = 0 then NaN else inf_of_sign (js_sign a * js_sign b))"

text \<open>
  Division. A zero divisor is the positive zero (see above), so a non-zero finite value
  divided by zero is the infinity with the sign of the dividend.
\<close>

fun js_div :: "jsnum \<Rightarrow> jsnum \<Rightarrow> jsnum" where
  "js_div NaN _ = NaN"
| "js_div _ NaN = NaN"
| "js_div (Fin a) (Fin b) =
     (if b = 0 then (if a = 0 then NaN else inf_of_sign (js_sign (Fin a))) else fl (a / b))"
| "js_div (Fin a) _ = Fin 0"
| "js_div a (Fin b) = inf_of_sign (js_sign a * (if b < 0 then - 1 else 1))"
| "js_div _ _ = NaN"

text \<open>
  \<^verbatim>\<open>Math.round\<close>: the nearest integer, a tie going up. The result needs no rounding:
  a binary64 value of magnitude \<open>2\<^sup>5\<^sup>2\<close> or more is an integer already, and below
  that every integer is representable. \<^verbatim>\<open>Math.abs\<close> is exact as well.
\<close>

fun js_round :: "jsnum \<Rightarrow> jsnum" where
  "js_round (Fin a) = Fin (of_int \<lfloor>a + 1 / 2\<rfloor>)"
| "js_round x = x"

fun js_abs :: "jsnum \<Rightarrow> jsnum" where
  "js_abs (Fin a) = Fin \<bar>a\<bar>"
| "js_abs NaN = NaN"
| "js_abs _ = PInf"

text \<open>The comparison \<^verbatim>\<open>a > b\<close>: false as soon as one side is \<open>NaN\<close>.\<close>

fun js_gt :: "jsnum \<Rightarrow> jsnum \<Rightarrow> bool" where
  "js_gt (Fin a) (Fin b) = (b < a)"
| "js_gt NaN _ = False"
| "js_gt _ NaN = False"
| "js_gt PInf PInf = False"
| "js_gt PInf _ = True"
| "js_gt _ PInf = False"
| "js_gt NInf _ = False"
| "js_gt _ NInf = True"

section \<open>Values and plain objects\<close>

text \<open>
  The values that the aggregation code reads and writes: \<^verbatim>\<open>undefined\<close>, a Number, a
  string, a built-in method of \<^verbatim>\<open>Object.prototype\<close>, or \<^verbatim>\<open>Object.prototype\<close>
  itself. The only strings that arise are concatenations that start with the source text
  of a built-in method or with \<^verbatim>\<open>[object Object]\<close>, or that contain such a text; they
  are not empty and are not numeric literals, and the model does not keep their
  characters.
\<close>

datatype val = Undefined | Num jsnum | Str | Func | ProtoObj

text \<open>
  \<^verbatim>\<open>ToBoolean\<close>, \<^verbatim>\<open>ToNumber\<close>, the operator \<^verbatim>\<open>+\<close> (addition of two Numbers,
  of \<^verbatim>\<open>undefined\<close> as \<open>NaN\<close>, and concatenation as soon as one side is a string or an
  object) and the operator \<^verbatim>\<open>||\<close>.
\<close>

fun truthy :: "val \<Rightarrow> bool" where
  "truthy Undefined = False"
| "truthy (Num (Fin a)) = (a \<noteq> 0)"
| "truthy (Num NaN) = False"
| "truthy (Num _) = True"
| "truthy _ = True"

fun to_number :: "val \<Rightarrow> jsnum" where
  "to_number (Num x) = x"
| "to_number _ = NaN"

fun js_plus :: "val \<Rightarrow> val \<Rightarrow> val" where
  "js_plus (Num a) (Num b) = Num (js_add a b)"
| "js_plus Undefined (Num b) = Num NaN"
| "js_plus (Num a) Undefined = Num NaN"
| "js_plus Undefined Undefined = Num NaN"
| "js_plus _ _ = Str"

definition js_or :: "val \<Rightarrow> val \<Rightarrow> val" where
  "js_or a b = (if truthy a then a else b)"

text \<open>
  \<^verbatim>\<open>s || d\<close> for a string property \<open>s\<close> that may be absent: the empty string is
  falsy, like \<^verbatim>\<open>undefined\<close> and \<^verbatim>\<open>null\<close>.
\<close>

fun str_or :: "string option \<Rightarrow> string \<Rightarrow> string" where
  "str_or None d = d"
| "str_or (Some s) d = (if s = [] then d else s)"

subsection \<open>Plain objects used as dictionaries\<close>

text \<open>
  \<^verbatim>\<open>categoryTotals\<close>, \<^verbatim>\<open>userTotals\<close>, \<^verbatim>\<open>allTotals\<close>, \<^verbatim>\<open>usersByCategory\<close> and
  \<^verbatim>\<open>averages\<close> are object literals \<^verbatim>\<open>{}\<close> indexed by category. An object is the
  association list of its own properties in insertion order: a write to an existing key
  keeps the key's position, a write to a new key appends. (An engine lists keys that are
  array indices first; no property below depends on the order of the keys.)

  A read \<^verbatim>\<open>obj[k]\<close> that finds no own property goes to \<^verbatim>\<open>Object.prototype\<close>:
  \<^verbatim>\<open>__proto__\<close> reads as \<^verbatim>\<open>Object.prototype\<close> itself, the names of its built-in
  methods read as functions, any other name as \<^verbatim>\<open>undefined\<close>. A write
  \<^verbatim>\<open>obj[k] = v\<close> of a Number or a string creates or updates an own property, except
  for the key \<^verbatim>\<open>__proto__\<close>, whose setter ignores a value that is not an object.
\<close>

type_synonym 'v obj = "(string \<times> 'v) list"

definition method_names :: "string list" where
  "method_names =
     [''constructor'', ''hasOwnProperty'', ''isPrototypeOf'', ''propertyIsEnumerable'',
      ''toLocaleString'', ''toString'', ''valueOf'', ''__defineGetter__'',
      ''__defineSetter__'', ''__lookupGetter__'', ''__lookupSetter__'']"

definition inherited :: "string \<Rightarrow> val" where
  "inherited k =
     (if k = ''__proto__'' then ProtoObj else if k \<in> set method_names then Func else Undefined)"

fun obj_set :: "'v obj \<Rightarrow> string \<Rightarrow> 'v \<Rightarrow> 'v obj" where
  "obj_set [] k v = [(k, v)]"
| "obj_set ((k', v') # kvs) k v =
     (if k' = k then (k, v) # kvs else (k', v') # obj_set kvs k v)"

definition obj_get :: "val obj \<Rightarrow> string \<Rightarrow> val" where
  "obj_get obj k = (case map_of obj k of Some v \<Rightarrow> v | None \<Rightarrow> inherited k)"

definition obj_put :: "val obj \<Rightarrow> string \<Rightarrow> val \<Rightarrow> val obj" where
  "obj_put obj k v = (if k = ''__proto__'' then obj else obj_set obj k v)"

definition obj_keys :: "'v obj \<Rightarrow> string list" where
  "obj_keys obj = map fst obj"

definition obj_values :: "'v obj \<Rightarrow> 'v list" where
  "obj_values obj = map snd obj"

text \<open>
  A \<^verbatim>\<open>Set\<close> is the list of its members in insertion order, without duplicates;
  \<open>set_add\<close> is \<^verbatim>\<open>Set.prototype.add\<close>.
\<close>

definition set_add :: "'a list \<Rightarrow> 'a \<Rightarrow> 'a list" where
  "set_add s x = (if x \<in> set s then s else s @ [x])"

definition new_set :: "'a list \<Rightarrow> 'a list" where
  "new_set xs = foldl set_add [] xs"

text \<open>
  A read of \<^verbatim>\<open>usersByCategory[cat]\<close>: an own property is a \<^verbatim>\<open>Set\<close>; otherwise the
  read is \<^verbatim>\<open>undefined\<close> or an inherited value that is not a \<^verbatim>\<open>Set\<close>.
\<close>

datatype users_read = UsersSet "string list" | NotASet | NoUsers

definition users_get :: "string list obj \<Rightarrow> string \<Rightarrow> users_read" where
  "users_get usersByCategory k =
     (case map_of usersByCategory k of
        Some s \<Rightarrow> UsersSet s
      | None \<Rightarrow> if inherited k = Undefined then NoUsers else NotASet)"

section \<open>The receipt schema\<close>

text \<open>
  \<^verbatim>\<open>receiptSchema\<close> (server.js, lines 37 to 48). A field that is not required may be
  absent. An absent \<^verbatim>\<open>price\<close> reads as \<^verbatim>\<open>undefined\<close>, which \<^verbatim>\<open>+\<close> treats as
  \<open>NaN\<close> next to a Number; the model writes it as \<open>NaN\<close>. The date is a time stamp.
\<close>

record item =
  itemId :: "string option"
  name :: "string option"
  category :: "string option"
  price :: jsnum

record receipt =
  googleId :: string
  receiptId :: "string option"
  vendor :: "string option"
  date :: "int option"
  items :: "item list"

definition other_category :: string where
  "other_category = ''Other (Type Category)''"

section \<open>GET /spending-summary: the category aggregator\<close>

text \<open>
  Lines 86 to 90, the body of the inner \<^verbatim>\<open>forEach\<close>: the category or the default,
  the total set to \<open>0\<close> when the read of it is falsy, then \<^verbatim>\<open>+=\<close> of the price.
\<close>

definition add_item :: "val obj \<Rightarrow> item \<Rightarrow> val obj" where
  "add_item categoryTotals it =
     (let cat = str_or (category it) other_category;
          t1 = (if \<not> truthy (obj_get categoryTotals cat)
                then obj_put categoryTotals cat (Num (Fin 0)) else categoryTotals)
      in obj_put t1 cat (js_plus (obj_get t1 cat) (Num (price it))))"

text \<open>Lines 82 to 92: both \<^verbatim>\<open>forEach\<close> loops, from the empty object.\<close>

definition category_totals :: "receipt list \<Rightarrow> val obj" where
  "category_totals receipts =
     foldl (\<lambda>totals r. foldl add_item totals (items r)) [] receipts"

text \<open>Line 94: \<^verbatim>\<open>Object.values(categoryTotals).reduce((sum, val) => sum + val, 0)\<close>.\<close>

definition total_spent :: "val obj \<Rightarrow> val" where
  "total_spent categoryTotals = foldl js_plus (Num (Fin 0)) (obj_values categoryTotals)"

record summary_entry =
  s_name :: string
  amount :: val
  percentage :: jsnum

text \<open>
  Lines 96 to 100: one entry per own property of \<^verbatim>\<open>categoryTotals\<close>; the division
  and the multiplication convert their operands to Numbers.
\<close>

definition summary_of :: "val obj \<Rightarrow> summary_entry list" where
  "summary_of categoryTotals =
     (let totalSpent = total_spent categoryTotals
      in map (\<lambda>(nm, amt).
            \<lparr>s_name = nm, amount = amt,
             percentage =
               js_round (js_mul (js_div (to_number amt) (to_number totalSpent)) (Fin 100))\<rparr>)
           categoryTotals)"

definition spending_summary :: "receipt list \<Rightarrow> summary_entry list" where
  "spending_summary receipts = summary_of (category_totals receipts)"

section \<open>GET /api/ai-summary: the aggregation before the summary call\<close>

text \<open>Lines 305 to 323, the handler's own copy of the loops and of the percentages.\<close>

definition ai_add_item :: "val obj \<Rightarrow> item \<Rightarrow> val obj" where
  "ai_add_item categoryTotals it =
     (let cat = str_or (category it) other_category;
          t1 = (if \<not> truthy (obj_get categoryTotals cat)
                then obj_put categoryTotals cat (Num (Fin 0)) else categoryTotals)
      in obj_put t1 cat (js_plus (obj_get t1 cat) (Num (price it))))"

definition ai_category_totals :: "receipt list \<Rightarrow> val obj" where
  "ai_category_totals receipts =
     foldl (\<lambda>totals r. foldl ai_add_item totals (items r)) [] receipts"

definition ai_receipt_summary :: "receipt list \<Rightarrow> summary_entry list" where
  "ai_receipt_summary receipts =
     (let categoryTotals = ai_category_totals receipts;
          totalSpent = foldl js_plus (Num (Fin 0)) (obj_values categoryTotals)
      in map (\<lambda>(nm, amt).
            \<lparr>s_name = nm, amount = amt,
             percentage =
               js_round (js_mul (js_div (to_number amt) (to_number totalSpent)) (Fin 100))\<rparr>)
           categoryTotals)"

section \<open>GET /comparison-summary: the peer comparison engine\<close>

datatype failure = StoreFailure | AdapterFailure | ValidationError | DuplicateKey | TypeError

text \<open>Lines 183 to 189: the owner's totals.\<close>

definition add_user_item :: "val obj \<Rightarrow> item \<Rightarrow> val obj" where
  "add_user_item userTotals it =
     (let cat = str_or (category it) other_category
      in obj_put userTotals cat
           (js_plus (js_or (obj_get userTotals cat) (Num (Fin 0))) (Num (price it))))"

definition user_totals :: "receipt list \<Rightarrow> val obj" where
  "user_totals userReceipts =
     foldl (\<lambda>totals r. foldl add_user_item totals (items r)) [] userReceipts"

text \<open>
  Lines 199 to 203, the body of the inner \<^verbatim>\<open>forEach\<close> over all receipts. The state is
  the pair of \<^verbatim>\<open>allTotals\<close> and \<^verbatim>\<open>usersByCategory\<close>. When the read of
  \<^verbatim>\<open>usersByCategory[cat]\<close> is \<^verbatim>\<open>undefined\<close>, a \<^verbatim>\<open>Set\<close> is created and the owner
  added to it. When the read is an inherited value, it is truthy, no \<^verbatim>\<open>Set\<close> is
  created, and the call of its \<^verbatim>\<open>add\<close>, which is \<^verbatim>\<open>undefined\<close>, throws a
  \<^verbatim>\<open>TypeError\<close>.
\<close>

definition add_all_item ::
  "string \<Rightarrow> val obj \<times> string list obj \<Rightarrow> item \<Rightarrow> failure + val obj \<times> string list obj" where
  "add_all_item uid st it =
     (let allTotals = fst st; usersByCategory = snd st;
          cat = str_or (category it) other_category;
          allTotals' = obj_put allTotals cat
                         (js_plus (js_or (obj_get allTotals cat) (Num (Fin 0))) (Num (price it)))
      in case users_get usersByCategory cat of
           NoUsers \<Rightarrow> Inr (allTotals', obj_set usersByCategory cat (set_add [] uid))
         | UsersSet users \<Rightarrow> Inr (allTotals', obj_set usersByCategory cat (set_add users uid))
         | NotASet \<Rightarrow> Inl TypeError)"

text \<open>Lines 196 to 205: the two nested loops; an exception ends them.\<close>

fun add_all_items ::
  "string \<Rightarrow> val obj \<times> string list obj \<Rightarrow> item list \<Rightarrow> failure + val obj \<times> string list obj" where
  "add_all_items uid st [] = Inr st"
| "add_all_items uid st (it # its) =
     (case add_all_item uid st it of
        Inl err \<Rightarrow> Inl err
      | Inr st' \<Rightarrow> add_all_items uid st' its)"

fun add_all_receipts ::
  "val obj \<times> string list obj \<Rightarrow> receipt list \<Rightarrow> failure + val obj \<times> string list obj" where
  "add_all_receipts st [] = Inr st"
| "add_all_receipts st (r # rs) =
     (case add_all_items (googleId r) st (items r) of
        Inl err \<Rightarrow> Inl err
      | Inr st' \<Rightarrow> add_all_receipts st' rs)"

definition all_totals :: "receipt list \<Rightarrow> failure + val obj \<times> string list obj" where
  "all_totals allReceipts = add_all_receipts ([], []) allReceipts"

text \<open>
  Lines 207 to 210: the \<^verbatim>\<open>for ... in\<close> loop over the own keys of \<^verbatim>\<open>allTotals\<close>.
  Reading \<^verbatim>\<open>.size\<close> of \<^verbatim>\<open>undefined\<close> throws a \<^verbatim>\<open>TypeError\<close>; the \<^verbatim>\<open>size\<close> of
  an inherited value is \<^verbatim>\<open>undefined\<close>, and a division by it gives \<open>NaN\<close>.
\<close>

fun averages_loop ::
  "val obj \<Rightarrow> string list obj \<Rightarrow> string list \<Rightarrow> val obj \<Rightarrow> failure + val obj" where
  "averages_loop allTotals usersByCategory [] averages = Inr averages"
| "averages_loop allTotals usersByCategory (cat # cats) averages =
     (case users_get usersByCategory cat of
        NoUsers \<Rightarrow> Inl TypeError
      | NotASet \<Rightarrow>
          averages_loop allTotals usersByCategory cats (obj_put averages cat (Num NaN))
      | UsersSet users \<Rightarrow>
          averages_loop allTotals usersByCategory cats
            (obj_put averages cat
               (Num (js_div (to_number (obj_get allTotals cat)) (Fin (of_nat (length users)))))))"

definition averages_of :: "receipt list \<Rightarrow> failure + val obj" where
  "averages_of allReceipts =
     (case all_totals allReceipts of
        Inl err \<Rightarrow> Inl err
      | Inr st \<Rightarrow> averages_loop (fst st) (snd st) (obj_keys (fst st)) [])"

record cmp_entry =
  c_category :: string
  difference :: jsnum
  isHigher :: bool

text \<open>Lines 220 to 227, the body of the last \<^verbatim>\<open>forEach\<close>.\<close>

definition compare_category :: "val obj \<Rightarrow> val obj \<Rightarrow> string \<Rightarrow> cmp_entry" where
  "compare_category userTotals averages cat =
     (let userSpent = js_or (obj_get userTotals cat) (Num (Fin 0));
          avgSpent = js_or (obj_get averages cat) (Num (Fin 0));
          diff = js_round (js_sub (to_number userSpent) (to_number avgSpent))
      in \<lparr>c_category = cat, difference = js_abs diff, isHigher = js_gt diff (Fin 0)\<rparr>)"

text \<open>Lines 212 to 228: the set of all categories, then one entry pushed per member.\<close>

definition comparison :: "val obj \<Rightarrow> val obj \<Rightarrow> cmp_entry list" where
  "comparison userTotals averages =
     (let allCategories = new_set (obj_keys userTotals @ obj_keys averages)
      in map (compare_category userTotals averages) allCategories)"

text \<open>
  Lines 178 to 228 after the two queries: \<open>userReceipts\<close> and \<open>allReceipts\<close> are what
  the two calls of \<^verbatim>\<open>Receipt.find\<close> returned.
\<close>

definition comparison_summary :: "receipt list \<Rightarrow> receipt list \<Rightarrow> failure + cmp_entry list" where
  "comparison_summary userReceipts allReceipts =
     (case averages_of allReceipts of
        Inl err \<Rightarrow> Inl err
      | Inr averages \<Rightarrow> Inr (comparison (user_totals userReceipts) averages))"

section \<open>The handlers and their failures\<close>

text \<open>
  A handler either sends a response (status and body) or lets a failure escape: a
  rejected promise of the \<^verbatim>\<open>async\<close> function that no \<^verbatim>\<open>catch\<close> of the handler
  sees. A store query is modelled by its result: what \<^verbatim>\<open>await\<close> returns, or the
  failure it throws. A query parameter is a string or absent.
\<close>

datatype body =
  Text string
  | ErrorJson string
  | SummaryJson "summary_entry list"
  | ComparisonJson "cmp_entry list"
  | AiSummaryJson string

datatype outcome = Responded nat body | Escaped failure

fun falsy_str :: "string option \<Rightarrow> bool" where
  "falsy_str None = True"
| "falsy_str (Some s) = (s = [])"

text \<open>Lines 69 to 107: everything is inside \<^verbatim>\<open>try\<close>.\<close>

definition spending_summary_handler :: "string option \<Rightarrow> failure + receipt list \<Rightarrow> outcome" where
  "spending_summary_handler gid found =
     (if falsy_str gid then Responded 400 (Text ''Missing googleId'')
      else case found of
        Inl err \<Rightarrow> Responded 500 (Text ''Error generating summary'')
      | Inr receipts \<Rightarrow> Responded 200 (SummaryJson (spending_summary receipts)))"

text \<open>
  Lines 171 to 231: the handler has no \<^verbatim>\<open>try\<close>. \<open>foundUser\<close> and \<open>foundAll\<close> are
  the results of the two queries, in the order the handler awaits them.
\<close>

definition comparison_summary_handler ::
  "string option \<Rightarrow> failure + receipt list \<Rightarrow> failure + receipt list \<Rightarrow> outcome" where
  "comparison_summary_handler gid foundUser foundAll =
     (if falsy_str gid then Responded 400 (Text ''Missing googleId'')
      else case foundUser of
        Inl err \<Rightarrow> Escaped err
      | Inr userReceipts \<Rightarrow>
          (case foundAll of
             Inl err \<Rightarrow> Escaped err
           | Inr allReceipts \<Rightarrow>
               (case comparison_summary userReceipts allReceipts of
                  Inl err \<Rightarrow> Escaped err
                | Inr cmp \<Rightarrow> Responded 200 (ComparisonJson cmp))))"

text \<open>
  Lines 290 to 331: \<open>generate\<close> is \<^verbatim>\<open>generateAISpendingSummary\<close> of
  \<^verbatim>\<open>gemini.js\<close>, an external call that returns a text or fails.
\<close>

definition ai_summary_handler ::
  "(summary_entry list \<Rightarrow> failure + string) \<Rightarrow> string option \<Rightarrow> failure + receipt list \<Rightarrow> outcome" where
  "ai_summary_handler generate gid found =
     (if falsy_str gid then Responded 400 (ErrorJson ''Missing googleId'')
      else case found of
        Inl err \<Rightarrow> Responded 500 (ErrorJson ''Failed to generate AI summary'')
      | Inr receipts \<Rightarrow>
          (case generate (ai_receipt_summary receipts) of
             Inl err \<Rightarrow> Responded 500 (ErrorJson ''Failed to generate AI summary'')
           | Inr summary \<Rightarrow> Responded 200 (AiSummaryJson summary)))"

section \<open>POST /api/users\<close>

text \<open>
  \<^verbatim>\<open>userSchema\<close> (lines 233 to 246), restricted to the fields the handler sets. The
  store is the list of saved profiles, oldest first. \<^verbatim>\<open>googleId\<close> and \<^verbatim>\<open>email\<close>
  are required (a required string must be present and not empty) and \<^verbatim>\<open>googleId\<close>
  is unique; \<^verbatim>\<open>save\<close> fails on a profile that breaks either rule. The owner
  identifier of a request is a string: a body without \<^verbatim>\<open>googleId\<close> is outside the
  model.
\<close>

record user =
  u_googleId :: string
  email :: "string option"
  firstName :: "string option"
  lastName :: "string option"
  picture :: "string option"

type_synonym user_store = "user list"

definition findOne :: "user_store \<Rightarrow> string \<Rightarrow> user option" where
  "findOne users gid = List.find (\<lambda>u. u_googleId u = gid) users"

definition save :: "user_store \<Rightarrow> user \<Rightarrow> failure + user_store" where
  "save users u =
     (if u_googleId u = [] \<or> falsy_str (email u) then Inl ValidationError
      else if u_googleId u \<in> set (map u_googleId users) then Inl DuplicateKey
      else Inr (users @ [u]))"

datatype user_response = UserJson nat user | UserError nat string

text \<open>
  Lines 250 to 266. The request body is a record of the five fields the handler reads;
  the result is the store after the call and the response.
\<close>

definition post_users :: "user_store \<Rightarrow> user \<Rightarrow> user_store \<times> user_response" where
  "post_users users reqBody =
     (case findOne users (u_googleId reqBody) of
        Some found \<Rightarrow> (users, UserJson 201 found)
      | None \<Rightarrow>
          (let newUser = \<lparr>u_googleId = u_googleId reqBody, email = email reqBody,
                          firstName = firstName reqBody, lastName = lastName reqBody,
                          picture = picture reqBody\<rparr>
           in case save users newUser of
                Inl err \<Rightarrow> (users, UserError 500 ''Internal server error'')
              | Inr users' \<Rightarrow> (users', UserJson 201 newUser)))"

section \<open>POST /api/expenses\<close>

text \<open>
  The value of \<^verbatim>\<open>item.amount\<close> in the JSON body: absent, \<^verbatim>\<open>null\<close>, a boolean, a
  number or a string.
\<close>

datatype json = JUndefined | JNull | JBool bool | JNumber rat | JString string

definition is_space :: "char \<Rightarrow> bool" where
  "is_space c = (c \<in> set [CHR '' '', CHR 0x09, CHR 0x0A, CHR 0x0B, CHR 0x0C, CHR 0x0D])"

definition is_digit :: "char \<Rightarrow> bool" where
  "is_digit c = ((48::nat) \<le> of_char c \<and> of_char c \<le> (57::nat))"

definition digits_nat :: "string \<Rightarrow> nat" where
  "digits_nat ds = foldl (\<lambda>n c. 10 * n + (of_char c - 48)) 0 ds"

text \<open>
  The exponent part of a decimal literal: \<^verbatim>\<open>e\<close> or \<^verbatim>\<open>E\<close>, an optional sign and at
  least one digit; anything else is no exponent.
\<close>

definition parse_exponent :: "string \<Rightarrow> int" where
  "parse_exponent s =
     (if s \<noteq> [] \<and> (hd s = CHR ''e'' \<or> hd s = CHR ''E'') then
        (let r = tl s;
             signed = (r \<noteq> [] \<and> (hd r = CHR ''-'' \<or> hd r = CHR ''+''));
             ds = takeWhile is_digit (if signed then tl r else r)
         in if ds = [] then 0
            else if signed \<and> hd r = CHR ''-'' then - int (digits_nat ds)
            else int (digits_nat ds))
      else 0)"

text \<open>
  \<^verbatim>\<open>parseFloat\<close> on a string of ASCII characters: leading white space is dropped, then
  the longest prefix that is a signed \<^verbatim>\<open>Infinity\<close> or a decimal literal is read and
  its value rounded to binary64; \<open>NaN\<close> when there is none.
\<close>

definition parse_float :: "string \<Rightarrow> jsnum" where
  "parse_float input =
     (let s = dropWhile is_space input;
          signed = (s \<noteq> [] \<and> (hd s = CHR ''-'' \<or> hd s = CHR ''+''));
          neg = (signed \<and> hd s = CHR ''-'');
          s1 = (if signed then tl s else s)
      in if take 8 s1 = ''Infinity'' then (if neg then NInf else PInf)
         else
           (let ip = takeWhile is_digit s1;
                r1 = dropWhile is_digit s1;
                dot = (r1 \<noteq> [] \<and> hd r1 = CHR ''.'');
                fp = (if dot then takeWhile is_digit (tl r1) else []);
                r2 = (if dot then dropWhile is_digit (tl r1) else r1)
            in if ip = [] \<and> fp = [] then NaN
               else
                 (let m = of_nat (digits_nat ip) + of_nat (digits_nat fp) / 10 ^ length fp;
                      e = parse_exponent r2;
                      v = (if 0 \<le> e then m * 10 ^ nat e else m / 10 ^ nat (- e))
                  in fl (if neg then - v else v))))"

text \<open>
  \<^verbatim>\<open>parseFloat(v)\<close> converts \<open>v\<close> to a string first. \<open>JNumber r\<close> is a number of
  the parsed body, a binary64 value \<open>r\<close>: its string reads back as the same value.
  \<^verbatim>\<open>"undefined"\<close>, \<^verbatim>\<open>"null"\<close>, \<^verbatim>\<open>"true"\<close> and \<^verbatim>\<open>"false"\<close> are not numbers.
\<close>

fun parseFloat :: "json \<Rightarrow> jsnum" where
  "parseFloat (JNumber r) = Fin r"
| "parseFloat (JString s) = parse_float s"
| "parseFloat _ = NaN"

record expense_item =
  description :: "string option"
  e_category :: "string option"
  e_amount :: json

text \<open>
  Lines 139 to 144, the function mapped over \<^verbatim>\<open>items\<close>; \<open>rid\<close> is the string of
  the random number drawn for the item.
\<close>

definition new_item :: "string \<Rightarrow> expense_item \<Rightarrow> item" where
  "new_item rid it =
     \<lparr>itemId = Some rid,
      name = Some (str_or (description it) ''Unknown''),
      category = Some (str_or (e_category it) other_category),
      price = to_number (js_or (Num (parseFloat (e_amount it))) (Num (Fin 0)))\<rparr>"

record expense_body =
  e_vendor :: "string option"
  e_items :: "expense_item list option"
  e_googleId :: "string option"

datatype expense_response = ExpenseAdded nat receipt | ExpenseError nat string

text \<open>
  Lines 123 to 154. \<open>rand\<close> gives the draws of \<^verbatim>\<open>Math.random\<close> as strings (draw
  \<open>0\<close> for the receipt, draw \<open>i + 1\<close> for item \<open>i\<close>), \<open>now\<close> is the clock and
  \<open>saved\<close> the result of \<^verbatim>\<open>receipt.save()\<close>. \<open>e_items\<close> is \<open>None\<close> when the
  body's \<^verbatim>\<open>items\<close> is not an array.
\<close>

definition post_expenses ::
  "(nat \<Rightarrow> string) \<Rightarrow> int \<Rightarrow> failure + unit \<Rightarrow> expense_body \<Rightarrow> expense_response" where
  "post_expenses rand now saved reqBody =
     (case (e_googleId reqBody, e_items reqBody) of
        (Some gid, Some its) \<Rightarrow>
          if gid = [] \<or> falsy_str (e_vendor reqBody) \<or> its = []
          then ExpenseError 400 ''Invalid expense data''
          else
            (let rcpt = \<lparr>googleId = gid,
                         receiptId = Some (rand 0),
                         vendor = e_vendor reqBody,
                         date = Some now,
                         items = map (\<lambda>(i, it). new_item (rand (Suc i)) it)
                                   (zip [0 ..< length its] its)\<rparr>
             in case saved of
                  Inl err \<Rightarrow> ExpenseError 500 ''Failed to save expense''
                | Inr _ \<Rightarrow> ExpenseAdded 201 rcpt)
      | _ \<Rightarrow> ExpenseError 400 ''Invalid expense data'')"

section \<open>Notions of the specification and example data\<close>

text \<open>A non-negative decimal: a finite Number that is not below zero.\<close>

definition non_negative_decimal :: "jsnum \<Rightarrow> bool" where
  "non_negative_decimal x = (case x of Fin a \<Rightarrow> 0 \<le> a | _ \<Rightarrow> False)"

definition alice :: user where
  "alice = \<lparr>u_googleId = ''g-1'', email = Some ''alice@example.com'',
            firstName = Some ''Alice'', lastName = None, picture = None\<rparr>"

definition alice_again :: user where
  "alice_again = \<lparr>u_googleId = ''g-1'', email = Some ''other@example.com'',
                  firstName = Some ''Al'', lastName = Some ''Smith'', picture = None\<rparr>"

text \<open>
  The grouping key of a line item: its category field, or the sentinel default when the
  field is absent or empty.
\<close>

definition grouping_key :: "item \<Rightarrow> string" where
  "grouping_key it =
     (case category it of None \<Rightarrow> other_category
      | Some c \<Rightarrow> if c = [] then other_category else c)"

fun the_fin :: "jsnum \<Rightarrow> rat" where
  "the_fin (Fin a) = a"
| "the_fin _ = 0"

fun is_fin :: "jsnum \<Rightarrow> bool" where
  "is_fin (Fin a) = True"
| "is_fin _ = False"

definition all_items :: "receipt list \<Rightarrow> item list" where
  "all_items rs = concat (map items rs)"

text \<open>Every line item of every receipt carries a price that is a finite Number.\<close>

definition finite_prices :: "receipt list \<Rightarrow> bool" where
  "finite_prices rs = list_all (\<lambda>it. is_fin (price it)) (all_items rs)"

text \<open>
  No line item has a grouping key that \<^verbatim>\<open>Object.prototype\<close> answers: the keys are
  ordinary names.
\<close>

definition plain_categories :: "receipt list \<Rightarrow> bool" where
  "plain_categories rs = list_all (\<lambda>it. inherited (grouping_key it) = Undefined) (all_items rs)"

text \<open>
  Every price is an integer, and the absolute values of all prices add up to less than
  \<open>2\<^sup>5\<^sup>3\<close>: no sum of some of the prices needs rounding.
\<close>

definition abs_total :: "receipt list \<Rightarrow> rat" where
  "abs_total rs = sum_list (map (\<lambda>it. \<bar>the_fin (price it)\<bar>) (all_items rs))"

definition small_integer_prices :: "receipt list \<Rightarrow> bool" where
  "small_integer_prices rs =
     (list_all (\<lambda>it. is_fin (price it) \<and> of_int \<lfloor>the_fin (price it)\<rfloor> = the_fin (price it))
        (all_items rs)
      \<and> abs_total rs < 2 ^ 53)"

text \<open>
  The sum of a list of values as the code adds them, from \<open>0\<close> and from the left; the
  total of a category: that sum over the prices of the line items with the grouping key,
  in the order of the input.
\<close>

definition js_sum :: "val list \<Rightarrow> val" where
  "js_sum xs = foldl js_plus (Num (Fin 0)) xs"

definition category_total :: "receipt list \<Rightarrow> string \<Rightarrow> jsnum" where
  "category_total rs cat =
     foldl js_add (Fin 0) (map price (filter (\<lambda>it. grouping_key it = cat) (all_items rs)))"

text \<open>
  For the proofs: the Number an object holds for a key (\<open>0\<close> when the key is absent),
  an object whose keys are ordinary names and whose values are Numbers other than
  \<open>NaN\<close>, and the step that all three accumulation loops perform on such an object.
\<close>

definition cur :: "val obj \<Rightarrow> string \<Rightarrow> jsnum" where
  "cur t k = (case map_of t k of None \<Rightarrow> Fin 0 | Some v \<Rightarrow> to_number v)"

fun good_value :: "val \<Rightarrow> bool" where
  "good_value (Num x) = (x \<noteq> NaN)"
| "good_value _ = False"

definition good :: "val obj \<Rightarrow> bool" where
  "good t = list_all (\<lambda>kv. inherited (fst kv) = Undefined \<and> good_value (snd kv)) t"

definition step :: "val obj \<Rightarrow> item \<Rightarrow> val obj" where
  "step t it =
     obj_set t (grouping_key it) (Num (js_add (cur t (grouping_key it)) (price it)))"

definition mk_item :: "string \<Rightarrow> string option \<Rightarrow> jsnum \<Rightarrow> item" where
  "mk_item i c p = \<lparr>itemId = Some i, name = Some ''item'', category = c, price = p\<rparr>"

definition mk_receipt :: "string \<Rightarrow> item list \<Rightarrow> receipt" where
  "mk_receipt g its = \<lparr>googleId = g, receiptId = Some ''r'', vendor = Some ''Shop'',
                        date = Some 0, items = its\<rparr>"

definition lunch :: receipt where
  "lunch = mk_receipt ''g-1''
     [mk_item ''i1'' (Some ''Food'') (Fin 30), mk_item ''i2'' (Some ''Food'') (Fin 10),
      mk_item ''i3'' (Some ''Transport'') (Fin 20)]"

definition free_sample :: receipt where
  "free_sample = mk_receipt ''g-1'' [mk_item ''i1'' (Some ''Food'') (Fin 0)]"

text \<open>
  A receipt with a price of \<open>2\<^sup>5\<^sup>3\<close>, above which binary64 no longer holds every
  integer, and receipts with a category that names a member of \<^verbatim>\<open>Object.prototype\<close>.
\<close>

definition big_receipt :: receipt where
  "big_receipt = mk_receipt ''g-1''
     [mk_item ''i1'' (Some ''Rent'') (Fin 9007199254740992), mk_item ''i2'' (Some ''Food'') (Fin 1),
      mk_item ''i3'' (Some ''Rent'') (Fin 1), mk_item ''i4'' (Some ''Food'') (Fin 1)]"

definition proto_receipt :: receipt where
  "proto_receipt = mk_receipt ''g-1'' [mk_item ''i1'' (Some ''__proto__'') (Fin 5)]"

definition constructor_receipt :: receipt where
  "constructor_receipt = mk_receipt ''g-1'' [mk_item ''i1'' (Some ''constructor'') (Fin 5)]"

text \<open>
  What the comparison takes as the owner's total, or as the peer average, of a category:
  the value of lines 220 and 221 (the property, or \<open>0\<close> when it is missing or
  falsy), as the Number that the subtraction of line 222 makes of it.
\<close>

definition spent :: "val obj \<Rightarrow> string \<Rightarrow> jsnum" where
  "spent totals cat = to_number (js_or (obj_get totals cat) (Num (Fin 0)))"

text \<open>
  The distinct owners who contributed at least one line item to a category.
\<close>

definition contributors :: "receipt list \<Rightarrow> string \<Rightarrow> string set" where
  "contributors rs cat =
     set (map googleId (filter (\<lambda>r. list_ex (\<lambda>it. grouping_key it = cat) (items r)) rs))"

text \<open>
  For the proofs: a price that is an integer, an item with an ordinary category name and
  a finite price, the owners recorded for a category, the line items paired with their
  receipt's owner, the step of the loop over all receipts when nothing is thrown, and
  the quotient that the averaging loop stores.
\<close>

definition int_price :: "jsnum \<Rightarrow> bool" where
  "int_price x \<longleftrightarrow> is_fin x \<and> of_int \<lfloor>the_fin x\<rfloor> = the_fin x"

definition ok_item :: "item \<Rightarrow> bool" where
  "ok_item it \<longleftrightarrow> inherited (grouping_key it) = Undefined \<and> is_fin (price it)"

definition users_of :: "string list obj \<Rightarrow> string \<Rightarrow> string list" where
  "users_of usersByCategory cat = (case map_of usersByCategory cat of None \<Rightarrow> [] | Some s \<Rightarrow> s)"

definition owned_items :: "receipt list \<Rightarrow> (string \<times> item) list" where
  "owned_items rs = concat (map (\<lambda>r. map (Pair (googleId r)) (items r)) rs)"

definition pure_all_item ::
  "val obj \<times> string list obj \<Rightarrow> string \<times> item \<Rightarrow> val obj \<times> string list obj" where
  "pure_all_item st oi =
     (step (fst st) (snd oi),
      obj_set (snd st) (grouping_key (snd oi))
        (set_add (users_of (snd st) (grouping_key (snd oi))) (fst oi)))"

definition avg_of :: "val obj \<Rightarrow> string list obj \<Rightarrow> string \<Rightarrow> val" where
  "avg_of allTotals usersByCategory cat =
     Num (js_div (cur allTotals cat) (Fin (of_nat (length (users_of usersByCategory cat)))))"

text \<open>
  Three owners: two bought food, the third only fuel. A fourth owner who spent more on
  food. An owner whose only price is infinite. Totals and averages with categories on one side only.
\<close>

definition owner_1 :: receipt where
  "owner_1 = mk_receipt ''g-1'' [mk_item ''i1'' (Some ''Food'') (Fin 1)]"

definition owner_2 :: receipt where
  "owner_2 = mk_receipt ''g-2'' [mk_item ''i2'' (Some ''Food'') (Fin (1 / 2))]"


definition owner_4 :: receipt where
  "owner_4 = mk_receipt ''g-4'' [mk_item ''i4'' (Some ''Food'') (Fin 4)]"

definition owner_inf :: receipt where
  "owner_inf = mk_receipt ''g-1'' [mk_item ''i1'' (Some ''Food'') PInf]"

definition some_totals :: "val obj" where
  "some_totals = [(''Food'', Num (Fin 100)), (''Books'', Num (Fin 20))]"

definition some_averages :: "val obj" where
  "some_averages = [(''Food'', Num (Fin (151 / 2))), (''Fuel'', Num (Fin 9))]"

text \<open>A manual entry with a negative amount and no category.\<close>

definition refund :: expense_item where
  "refund = \<lparr>description = Some ''refund'', e_category = None, e_amount = JString ''-5''\<rparr>"

definition refund_body :: expense_body where
  "refund_body = \<lparr>e_vendor = Some ''Shop'', e_items = Some [refund], e_googleId = Some ''g-1''\<rparr>"

definition plain_keys :: "'v obj \<Rightarrow> bool" where
  "plain_keys t \<longleftrightarrow> (\<forall>k \<in> set (obj_keys t). inherited k = Undefined)"

text \<open>A receipt whose shares of the total are not binary fractions.\<close>

definition shares :: receipt where
  "shares = mk_receipt ''g-1''
     [mk_item ''i1'' (Some ''Food'') (Fin 29), mk_item ''i2'' (Some ''Rent'') (Fin 171)]"

section \<open>Rounding to binary64\<close>

lemma floor_rat_numeral [simp]:
  "\<lfloor>numeral a / numeral b :: rat\<rfloor> = numeral a div numeral b"
  by (metis floor_divide_of_int_eq of_int_numeral)

lemma floor_rat_neg_numeral [simp]:
  "\<lfloor>- (numeral a / numeral b) :: rat\<rfloor> = - numeral a div numeral b"
  by (metis divide_minus_left floor_divide_of_int_eq of_int_neg_numeral of_int_numeral)

lemma floor_rat_one_div [simp]:
  "\<lfloor>1 / numeral b :: rat\<rfloor> = 1 div numeral b"
  by (metis floor_divide_of_int_eq of_int_1 of_int_numeral)

lemma floor_rat_neg_one_div [simp]:
  "\<lfloor>- (1 / numeral b) :: rat\<rfloor> = - 1 div numeral b"
  by (metis divide_minus_left floor_divide_of_int_eq of_int_minus of_int_1 of_int_numeral)

lemma fl_not_NaN: "fl x \<noteq> NaN"
  by (simp add: fl_def Let_def)

lemma fl_zero: "fl 0 = Fin 0"
  by (simp add: fl_def)

lemma round_even_nonneg: "0 \<le> y \<Longrightarrow> 0 \<le> round_even y"
  by (auto simp: round_even_def Let_def)

lemma scale2_nonneg: "0 \<le> y \<Longrightarrow> 0 \<le> scale2 y e"
  by (simp add: scale2_def)

lemma fl_magnitude_nonneg:
  "0 \<le> scale2 (of_int (round_even (scale2 \<bar>x\<bar> (- e)))) e"
  by (intro scale2_nonneg) (simp add: round_even_nonneg scale2_nonneg)

lemma fl_Fin_pos: "fl x = Fin d \<Longrightarrow> 0 < d \<Longrightarrow> 0 < x"
  using fl_magnitude_nonneg [of x "max (ilog2 \<bar>x\<bar> - 52) (- 1074)"]
  by (auto simp: fl_def Let_def split: if_splits)

lemma fl_PInf_pos: "fl x = PInf \<Longrightarrow> 0 < x"
  by (auto simp: fl_def Let_def split: if_splits)

lemma round_even_of_int: "round_even (of_int m) = m"
  by (simp add: round_even_def)

lemma bitlen_le_53:
  assumes "0 < n" "n < 2 ^ 53"
  shows "bitlen n \<le> 53"
proof (rule ccontr)
  assume "\<not> bitlen n \<le> 53"
  then have "54 \<le> bitlen n" by simp
  then have "(53::nat) \<le> nat (bitlen n - 1)" by simp
  then have "(2::int) ^ 53 \<le> 2 ^ nat (bitlen n - 1)"
    by (rule power_increasing) simp
  also have "\<dots> \<le> n" using bitlen_bounds [OF assms(1)] by simp
  finally show False using assms(2) by simp
qed

lemma fl_of_int:
  assumes "\<bar>z\<bar> < 2 ^ 53"
  shows "fl (of_int z) = Fin (of_int z)"
proof (cases "z = 0")
  case True
  then show ?thesis by (simp add: fl_zero)
next
  case False
  define n where "n = \<bar>z\<bar>"
  have n: "0 < n" "n < 2 ^ 53" using False assms by (simp_all add: n_def)
  have a: "\<bar>rat_of_int z\<bar> = of_int n" by (simp add: n_def)
  have "1 \<le> n" using n by simp
  then have one: "(1::rat) \<le> of_int n" by simp
  have il: "ilog2 (of_int n) = bitlen n - 1"
    using one by (simp add: ilog2_def)
  have b1: "1 \<le> bitlen n" using n(1) bitlen_eq_zero_iff [of n] bitlen_nonneg [of n] by linarith
  define e where "e = max (bitlen n - 1 - 52) (- 1074)"
  have e: "e \<le> 0" "- 1074 \<le> e"
    using bitlen_le_53 [OF n] by (simp_all add: e_def)
  have s1: "scale2 (of_int n) (- e) = of_int (n * 2 ^ nat (- e))"
    using e by (simp add: scale2_def)
  have s2: "scale2 (of_int (n * 2 ^ nat (- e))) e = of_int n"
    using e by (cases "e = 0") (simp_all add: scale2_def)
  have small: "\<not> (2::rat) ^ 1024 \<le> of_int n"
  proof -
    have "(of_int n :: rat) < of_int (2 ^ 53)" using n(2) by (simp only: of_int_less_iff)
    also have "\<dots> \<le> 2 ^ 1024" by simp
    finally show ?thesis by simp
  qed
  have ee: "max (ilog2 (rat_of_int n) - 52) (- 1074) = e"
    by (simp add: il e_def)
  have v: "scale2 (rat_of_int (round_even (scale2 (rat_of_int n) (- e)))) e = rat_of_int n"
    by (simp only: s1 round_even_of_int s2)
  have nz: "rat_of_int z \<noteq> 0" using False by simp
  have "fl (of_int z) = Fin (if rat_of_int z < 0 then - of_int n else of_int n)"
    unfolding fl_def Let_def a ee v using nz small by (simp only: if_False)
  also have "(if rat_of_int z < 0 then - of_int n else of_int n) = rat_of_int z"
    by (simp add: n_def)
  finally show ?thesis .
qed

lemma fl_Ints: "a \<in> \<int> \<Longrightarrow> \<bar>a\<bar> < 2 ^ 53 \<Longrightarrow> fl a = Fin a"
proof -
  assume "a \<in> \<int>" and b: "\<bar>a\<bar> < 2 ^ 53"
  then obtain z where z: "a = of_int z" by (auto elim: Ints_cases)
  with b have "rat_of_int \<bar>z\<bar> < of_int (2 ^ 53)" by simp
  then have "\<bar>z\<bar> < 2 ^ 53" by (simp only: of_int_less_iff)
  then show ?thesis by (simp add: z fl_of_int)
qed

lemma fl_numeral [simp]: "numeral n < (2::rat) ^ 53 \<Longrightarrow> fl (numeral n) = Fin (numeral n)"
  by (rule fl_Ints) simp_all

lemma fl_neg_numeral [simp]:
  "numeral n < (2::rat) ^ 53 \<Longrightarrow> fl (- numeral n) = Fin (- numeral n)"
  by (rule fl_Ints) simp_all

lemma fl_one [simp]: "fl 1 = Fin 1"
  by (rule fl_Ints) simp_all

section \<open>Totals under ordinary category names\<close>

lemma is_fin_conv: "is_fin x \<longleftrightarrow> (\<exists>a. x = Fin a)"
  by (cases x) simp_all

lemma str_or_grouping_key: "str_or (category it) other_category = grouping_key it"
  by (cases "category it") (simp_all add: grouping_key_def)

lemma map_of_obj_set: "map_of (obj_set t k v) k' = (if k' = k then Some v else map_of t k')"
  by (induction t) auto

lemma obj_keys_obj_set:
  "obj_keys (obj_set t k v) = (if k \<in> set (obj_keys t) then obj_keys t else obj_keys t @ [k])"
  by (induction t) (force simp: obj_keys_def)+

lemma obj_set_twice: "obj_set (obj_set t k v) k w = obj_set t k w"
  by (induction t) auto

lemma obj_keys_Nil: "obj_keys [] = []"
  by (simp add: obj_keys_def)

lemma map_of_None_iff: "map_of t k = None \<longleftrightarrow> k \<notin> set (obj_keys t)"
  by (simp add: obj_keys_def map_of_eq_None_iff)

lemma plain_not_proto: "inherited k = Undefined \<Longrightarrow> k \<noteq> ''__proto__''"
  by (auto simp: inherited_def)

lemma obj_put_plain: "inherited k = Undefined \<Longrightarrow> obj_put t k v = obj_set t k v"
  by (simp add: obj_put_def plain_not_proto)

lemma obj_get_plain:
  "inherited k = Undefined \<Longrightarrow>
   obj_get t k = (case map_of t k of Some v \<Rightarrow> v | None \<Rightarrow> Undefined)"
  by (simp add: obj_get_def split: option.splits)

lemma good_Nil: "good []"
  by (simp add: good_def)

lemma good_map_of: "good t \<Longrightarrow> map_of t k = Some v \<Longrightarrow> \<exists>x. v = Num x \<and> x \<noteq> NaN"
proof -
  assume g: "good t" and m: "map_of t k = Some v"
  from m have "(k, v) \<in> set t" by (rule map_of_SomeD)
  with g have "good_value v" by (auto simp: good_def list_all_iff)
  then show ?thesis by (cases v) simp_all
qed

lemma good_obj_set:
  "good t \<Longrightarrow> inherited k = Undefined \<Longrightarrow> x \<noteq> NaN \<Longrightarrow> good (obj_set t k (Num x))"
  by (induction t) (auto simp: good_def)

lemma js_add_fin_not_NaN: "x \<noteq> NaN \<Longrightarrow> js_add x (Fin p) \<noteq> NaN"
  by (cases x) (simp_all add: fl_not_NaN)

lemma cur_not_NaN: "good t \<Longrightarrow> cur t k \<noteq> NaN"
  by (cases "map_of t k") (auto simp: cur_def dest: good_map_of)

lemma good_step:
  "good t \<Longrightarrow> inherited (grouping_key it) = Undefined \<Longrightarrow> is_fin (price it) \<Longrightarrow> good (step t it)"
proof -
  assume g: "good t" and k: "inherited (grouping_key it) = Undefined" and "is_fin (price it)"
  then obtain p where p: "price it = Fin p" by (auto simp: is_fin_conv)
  have "js_add (cur t (grouping_key it)) (Fin p) \<noteq> NaN"
    using g by (intro js_add_fin_not_NaN cur_not_NaN)
  with g k p show ?thesis by (simp add: step_def good_obj_set)
qed

lemma falsy_cur:
  assumes "good t" "inherited k = Undefined" "\<not> truthy (obj_get t k)"
  shows "cur t k = Fin 0"
proof (cases "map_of t k")
  case None
  then show ?thesis by (simp add: cur_def)
next
  case (Some v)
  with assms(1) obtain x where x: "v = Num x" "x \<noteq> NaN" by (auto dest: good_map_of)
  with assms(2,3) Some show ?thesis
    by (cases x) (simp_all add: obj_get_plain cur_def)
qed

lemma truthy_cur:
  assumes "good t" "inherited k = Undefined" "truthy (obj_get t k)"
  shows "obj_get t k = Num (cur t k)"
proof (cases "map_of t k")
  case None
  with assms(2,3) show ?thesis by (simp add: obj_get_plain)
next
  case (Some v)
  with assms(1) obtain x where x: "v = Num x" "x \<noteq> NaN" by (auto dest: good_map_of)
  with assms(2) Some show ?thesis
    by (simp add: obj_get_plain cur_def)
qed

lemma obj_get_obj_set_same:
  "inherited k = Undefined \<Longrightarrow> obj_get (obj_set t k v) k = v"
  by (simp add: obj_get_def map_of_obj_set)

lemma add_item_step:
  assumes g: "good t" and k: "inherited (grouping_key it) = Undefined"
    and p: "is_fin (price it)"
  shows "add_item t it = step t it"
proof (cases "truthy (obj_get t (grouping_key it))")
  case True
  with truthy_cur [OF g k True] show ?thesis
    by (simp add: add_item_def Let_def str_or_grouping_key obj_put_plain [OF k] step_def)
next
  case False
  with falsy_cur [OF g k False] show ?thesis
    by (simp add: add_item_def Let_def str_or_grouping_key obj_put_plain [OF k] step_def
        obj_get_obj_set_same [OF k] obj_set_twice)
qed

lemma add_user_item_step:
  assumes g: "good t" and k: "inherited (grouping_key it) = Undefined"
    and p: "is_fin (price it)"
  shows "add_user_item t it = step t it"
proof (cases "truthy (obj_get t (grouping_key it))")
  case True
  with truthy_cur [OF g k True] show ?thesis
    by (simp add: add_user_item_def Let_def str_or_grouping_key obj_put_plain [OF k] step_def
        js_or_def)
next
  case False
  with falsy_cur [OF g k False] show ?thesis
    by (simp add: add_user_item_def Let_def str_or_grouping_key obj_put_plain [OF k] step_def
        js_or_def)
qed

lemma foldl_step_good: "good t \<Longrightarrow> list_all ok_item its \<Longrightarrow> good (foldl step t its)"
  by (induction its arbitrary: t) (simp_all add: good_step ok_item_def)

lemma foldl_add_item_step:
  "good t \<Longrightarrow> list_all ok_item its \<Longrightarrow> foldl add_item t its = foldl step t its"
  by (induction its arbitrary: t) (simp_all add: add_item_step good_step ok_item_def)

lemma foldl_add_user_item_step:
  "good t \<Longrightarrow> list_all ok_item its \<Longrightarrow> foldl add_user_item t its = foldl step t its"
  by (induction its arbitrary: t) (simp_all add: add_user_item_step good_step ok_item_def)

lemma foldl_items_concat:
  "foldl (\<lambda>t r. foldl f t (items r)) t rs = foldl f t (all_items rs)"
  by (induction rs arbitrary: t) (simp_all add: all_items_def)

lemma ok_items: "finite_prices rs \<Longrightarrow> plain_categories rs \<Longrightarrow> list_all ok_item (all_items rs)"
  by (auto simp: finite_prices_def plain_categories_def ok_item_def list_all_iff)

lemma category_totals_step:
  "finite_prices rs \<Longrightarrow> plain_categories rs \<Longrightarrow>
   category_totals rs = foldl step [] (all_items rs)"
  by (simp add: category_totals_def foldl_items_concat foldl_add_item_step good_Nil ok_items)

lemma user_totals_step:
  "finite_prices rs \<Longrightarrow> plain_categories rs \<Longrightarrow>
   user_totals rs = foldl step [] (all_items rs)"
  by (simp add: user_totals_def foldl_items_concat foldl_add_user_item_step good_Nil ok_items)

lemma cur_step:
  "cur (step t it) k = (if grouping_key it = k then js_add (cur t k) (price it) else cur t k)"
  by (auto simp: step_def cur_def map_of_obj_set)

lemma cur_foldl_step:
  "cur (foldl step t its) k
     = foldl js_add (cur t k) (map price (filter (\<lambda>it. grouping_key it = k) its))"
  by (induction its arbitrary: t) (simp_all add: cur_step)

lemma cur_Nil: "cur [] k = Fin 0"
  by (simp add: cur_def)

lemma set_set_add: "set (set_add s x) = insert x (set s)"
  by (auto simp: set_add_def)

lemma distinct_set_add: "distinct s \<Longrightarrow> distinct (set_add s x)"
  by (auto simp: set_add_def)

lemma set_foldl_set_add: "set (foldl set_add s xs) = set s \<union> set xs"
  by (induction xs arbitrary: s) (auto simp: set_set_add)

lemma distinct_foldl_set_add: "distinct s \<Longrightarrow> distinct (foldl set_add s xs)"
  by (induction xs arbitrary: s) (simp_all add: distinct_set_add)

lemma set_new_set: "set (new_set xs) = set xs"
  by (simp add: new_set_def set_foldl_set_add)

lemma distinct_new_set: "distinct (new_set xs)"
  by (simp add: new_set_def distinct_foldl_set_add)

lemma keys_step: "obj_keys (step t it) = set_add (obj_keys t) (grouping_key it)"
  by (simp add: step_def obj_keys_obj_set set_add_def)

lemma keys_foldl_step:
  "obj_keys (foldl step t its) = foldl set_add (obj_keys t) (map grouping_key its)"
  by (induction its arbitrary: t) (simp_all add: keys_step)

lemma keys_foldl_step_Nil:
  "obj_keys (foldl step [] its) = new_set (map grouping_key its)"
  by (simp add: keys_foldl_step new_set_def obj_keys_Nil)

lemma good_map_of_cur:
  "good t \<Longrightarrow> k \<in> set (obj_keys t) \<Longrightarrow> map_of t k = Some (Num (cur t k))"
proof -
  assume g: "good t" and k: "k \<in> set (obj_keys t)"
  from k obtain v where v: "map_of t k = Some v"
    using map_of_None_iff [of t k] by (cases "map_of t k") auto
  with g obtain x where "v = Num x" by (auto dest: good_map_of)
  with v show ?thesis by (simp add: cur_def)
qed

text \<open>
  With finite prices and ordinary category names, the totals have exactly the grouping
  keys of the line items as keys, each once, and hold under each key the sum, as the
  code adds, of the prices of the line items with that key.
\<close>

lemma category_totals_grouped:
  assumes "finite_prices rs" "plain_categories rs"
  shows "set (obj_keys (category_totals rs)) = grouping_key ` set (all_items rs)"
    and "distinct (obj_keys (category_totals rs))"
    and "k \<in> grouping_key ` set (all_items rs) \<Longrightarrow>
         map_of (category_totals rs) k = Some (Num (category_total rs k))"
proof -
  let ?t = "foldl step [] (all_items rs)"
  have t: "category_totals rs = ?t" using assms by (rule category_totals_step)
  have g: "good ?t" using assms by (simp add: foldl_step_good good_Nil ok_items)
  show keys: "set (obj_keys (category_totals rs)) = grouping_key ` set (all_items rs)"
    by (simp add: t keys_foldl_step_Nil set_new_set)
  show "distinct (obj_keys (category_totals rs))"
    by (simp add: t keys_foldl_step_Nil distinct_new_set)
  assume "k \<in> grouping_key ` set (all_items rs)"
  with keys have "k \<in> set (obj_keys ?t)" by (simp add: t)
  from good_map_of_cur [OF g this] show "map_of (category_totals rs) k = Some (Num (category_total rs k))"
    by (simp add: t cur_foldl_step cur_Nil category_total_def)
qed

text \<open>
  C9 fails on a category that names a member of \<^verbatim>\<open>Object.prototype\<close>. The line
  item of category \<^verbatim>\<open>__proto__\<close> is grouped under no key at all: the read of the
  total is \<^verbatim>\<open>Object.prototype\<close>, which is truthy, and the assignment of the sum
  to \<^verbatim>\<open>__proto__\<close> is ignored, so the totals and the summary stay empty. Under
  \<^verbatim>\<open>constructor\<close> the total is a string, not the sum of the prices.
\<close>

theorem inherited_name_not_grouped:
  "category_totals [proto_receipt] = []
   \<and> spending_summary [proto_receipt] = []
   \<and> grouping_key (mk_item ''i1'' (Some ''__proto__'') (Fin 5)) = ''__proto__''
   \<and> category_totals [constructor_receipt] = [(''constructor'', Str)]"
  by (simp add: category_totals_def add_item_def proto_receipt_def constructor_receipt_def
      mk_receipt_def mk_item_def obj_get_def obj_put_def inherited_def method_names_def
      spending_summary_def summary_of_def grouping_key_def Let_def)

section \<open>Sums that need no rounding\<close>

lemma foldl_js_plus_Num: "foldl js_plus (Num a) (map Num xs) = Num (foldl js_add a xs)"
  by (induction xs arbitrary: a) simp_all

lemma int_priceD: "int_price x \<Longrightarrow> \<exists>p. x = Fin p \<and> p \<in> \<int>"
proof -
  assume a: "int_price x"
  then obtain p where p: "x = Fin p" by (auto simp: int_price_def is_fin_conv)
  with a have "rat_of_int \<lfloor>p\<rfloor> = p" by (simp add: int_price_def)
  then have "p \<in> \<int>" by (metis Ints_of_int)
  with p show ?thesis by blast
qed

lemma foldl_js_add_exact:
  "list_all int_price xs \<Longrightarrow> a \<in> \<int> \<Longrightarrow>
   \<bar>a\<bar> + sum_list (map (\<lambda>x. \<bar>the_fin x\<bar>) xs) < 2 ^ 53 \<Longrightarrow>
   foldl js_add (Fin a) xs = Fin (a + sum_list (map the_fin xs))"
proof (induction xs arbitrary: a)
  case Nil
  then show ?case by simp
next
  case (Cons x xs)
  from Cons.prems(1) obtain p where p: "x = Fin p" "p \<in> \<int>"
    by (auto dest: int_priceD)
  have nonneg: "0 \<le> sum_list (map (\<lambda>x. \<bar>the_fin x\<bar>) xs)"
    by (rule sum_list_nonneg) auto
  have ap: "a + p \<in> \<int>" using Cons.prems(2) p(2) by (rule Ints_add)
  have "\<bar>a + p\<bar> \<le> \<bar>a\<bar> + \<bar>p\<bar>" by (rule abs_triangle_ineq)
  with Cons.prems(3) p(1) nonneg
  have b1: "\<bar>a + p\<bar> < 2 ^ 53"
    and b2: "\<bar>a + p\<bar> + sum_list (map (\<lambda>x. \<bar>the_fin x\<bar>) xs) < 2 ^ 53"
    by simp_all
  have "js_add (Fin a) x = Fin (a + p)"
    using fl_Ints [OF ap b1] by (simp add: p(1))
  moreover from Cons.prems(1) have "list_all int_price xs" by simp
  ultimately show ?case
    using Cons.IH [OF _ ap b2] by (simp add: p(1) add.assoc)
qed

lemma sum_if_distinct:
  "distinct ks \<Longrightarrow> k0 \<in> set ks \<Longrightarrow> sum_list (map (\<lambda>k. if k0 = k then c else (0::rat)) ks) = c"
proof (induction ks)
  case Nil
  then show ?case by simp
next
  case (Cons k ks)
  show ?case
  proof (cases "k0 = k")
    case True
    with Cons.prems(1) have "k0 \<notin> set ks" by simp
    then have "sum_list (map (\<lambda>k. if k0 = k then c else 0) ks) = 0"
      by (induction ks) auto
    with True show ?thesis by simp
  next
    case False
    with Cons show ?thesis by simp
  qed
qed

lemma sum_by_key:
  fixes f :: "'a \<Rightarrow> rat"
  assumes "distinct ks" "key ` set its \<subseteq> set ks"
  shows "sum_list (map (\<lambda>k. sum_list (map f (filter (\<lambda>it. key it = k) its))) ks)
           = sum_list (map f its)"
  using assms(2)
proof (induction its)
  case Nil
  then show ?case by simp
next
  case (Cons x xs)
  have split: "sum_list (map f (filter (\<lambda>it. key it = k) (x # xs)))
      = (if key x = k then f x else 0) + sum_list (map f (filter (\<lambda>it. key it = k) xs))" for k
    by simp
  from Cons.prems have kx: "key x \<in> set ks" and rest: "key ` set xs \<subseteq> set ks" by auto
  have "sum_list (map (\<lambda>k. sum_list (map f (filter (\<lambda>it. key it = k) (x # xs)))) ks)
      = sum_list (map (\<lambda>k. if key x = k then f x else 0) ks)
        + sum_list (map (\<lambda>k. sum_list (map f (filter (\<lambda>it. key it = k) xs))) ks)"
    unfolding split by (simp add: sum_list_addf)
  also have "\<dots> = f x + sum_list (map f xs)"
    using sum_if_distinct [OF assms(1) kx] Cons.IH [OF rest] by simp
  finally show ?case by simp
qed

lemma values_by_keys:
  "distinct (map fst t) \<Longrightarrow> map snd t = map (\<lambda>k. the (map_of t k)) (map fst t)"
proof (induction t)
  case Nil
  then show ?case by simp
next
  case (Cons kv t)
  obtain k v where kv: "kv = (k, v)" by (cases kv)
  from Cons.prems have d: "distinct (map fst t)" and nk: "k \<notin> fst ` set t"
    by (simp_all add: kv)
  have "map (\<lambda>k'. the (map_of ((k, v) # t) k')) (map fst t)
      = map (\<lambda>k'. the (map_of t k')) (map fst t)"
    using nk by (intro map_cong) auto
  with Cons.IH [OF d] show ?case by (simp add: kv)
qed

lemma abs_sum_list_le: "\<bar>sum_list (map f xs)\<bar> \<le> sum_list (map (\<lambda>x. \<bar>f x :: rat\<bar>) xs)"
  by (induction xs) (auto intro: order_trans [OF abs_triangle_ineq])

lemma sum_filter_le:
  "sum_list (map (\<lambda>x. \<bar>f x :: rat\<bar>) (filter P xs)) \<le> sum_list (map (\<lambda>x. \<bar>f x\<bar>) xs)"
  by (induction xs) auto

lemma Ints_sum_list: "(\<And>x. x \<in> set xs \<Longrightarrow> f x \<in> \<int>) \<Longrightarrow> sum_list (map f xs) \<in> (\<int> :: rat set)"
  by (induction xs) (auto intro: Ints_add)

text \<open>
  C2, as amended. When every price is an integer, the absolute values of all prices add
  up to less than \<open>2\<^sup>5\<^sup>3\<close> and every category is an ordinary name, the amounts of
  the entries that the category aggregator returns add up to the sum of the prices of all
  line items, and both sums are the exact sum.
\<close>

theorem amounts_sum_to_prices:
  assumes small: "small_integer_prices receipts" and plain: "plain_categories receipts"
  shows "js_sum (map amount (spending_summary receipts))
           = js_sum (map (\<lambda>it. Num (price it)) (all_items receipts))
         \<and> js_sum (map amount (spending_summary receipts))
           = Num (Fin (sum_list (map (\<lambda>it. the_fin (price it)) (all_items receipts))))"
proof -
  let ?its = "all_items receipts"
  let ?p = "\<lambda>it. the_fin (price it)"
  let ?t = "category_totals receipts"
  let ?ks = "obj_keys ?t"
  let ?s = "\<lambda>k. sum_list (map ?p (filter (\<lambda>it. grouping_key it = k) ?its))"
  from small have ints: "list_all (\<lambda>it. int_price (price it)) ?its"
    and bound: "sum_list (map (\<lambda>it. \<bar>?p it\<bar>) ?its) < 2 ^ 53"
    by (simp_all add: small_integer_prices_def int_price_def abs_total_def)
  from ints have fin: "finite_prices receipts"
    by (auto simp: finite_prices_def int_price_def list_all_iff)
  note grouped = category_totals_grouped [OF fin plain]
  have pint: "?p it \<in> \<int>" if "it \<in> set ?its" for it
    using ints that by (auto simp: list_all_iff dest!: int_priceD)
  \<comment> \<open>the sum of the prices\<close>
  have prices: "js_sum (map (\<lambda>it. Num (price it)) ?its) = Num (Fin (sum_list (map ?p ?its)))"
  proof -
    have "foldl js_add (Fin 0) (map price ?its) = Fin (0 + sum_list (map the_fin (map price ?its)))"
      using ints bound by (intro foldl_js_add_exact) (simp_all add: list_all_iff comp_def)
    then show ?thesis
      using foldl_js_plus_Num [of "Fin 0" "map price ?its"]
      by (simp add: js_sum_def comp_def)
  qed
  \<comment> \<open>the total of each category\<close>
  have total: "category_total receipts k = Fin (?s k)" for k
  proof -
    let ?g = "filter (\<lambda>it. grouping_key it = k) ?its"
    have "sum_list (map (\<lambda>it. \<bar>?p it\<bar>) ?g) \<le> sum_list (map (\<lambda>it. \<bar>?p it\<bar>) ?its)"
      by (rule sum_filter_le)
    with bound have b: "sum_list (map (\<lambda>it. \<bar>?p it\<bar>) ?g) < 2 ^ 53" by simp
    have "foldl js_add (Fin 0) (map price ?g) = Fin (0 + sum_list (map the_fin (map price ?g)))"
      using ints b by (intro foldl_js_add_exact) (simp_all add: list_all_iff comp_def)
    then show ?thesis by (simp add: category_total_def comp_def)
  qed
  \<comment> \<open>the amounts are the totals of the keys\<close>
  have keys: "set ?ks = grouping_key ` set ?its" and dist: "distinct ?ks"
    using grouped(1,2) by simp_all
  have vals: "obj_values ?t = map (\<lambda>k. Num (Fin (?s k))) ?ks"
  proof -
    have "map snd ?t = map (\<lambda>k. the (map_of ?t k)) (map fst ?t)"
      using dist by (intro values_by_keys) (simp add: obj_keys_def)
    also have "\<dots> = map (\<lambda>k. Num (Fin (?s k))) (map fst ?t)"
    proof (rule map_cong [OF refl])
      fix k assume "k \<in> set (map fst ?t)"
      with keys have "k \<in> grouping_key ` set ?its" by (simp add: obj_keys_def)
      from grouped(3) [OF this] show "the (map_of ?t k) = Num (Fin (?s k))"
        by (simp add: total)
    qed
    finally show ?thesis by (simp add: obj_values_def obj_keys_def)
  qed
  have amounts: "map amount (spending_summary receipts) = obj_values ?t"
    by (simp add: spending_summary_def summary_of_def obj_values_def Let_def split_def comp_def)
  have sub: "grouping_key ` set ?its \<subseteq> set ?ks" using keys by simp
  have sum_s: "sum_list (map ?s ?ks) = sum_list (map ?p ?its)"
    using dist sub by (rule sum_by_key)
  have sum_abs: "sum_list (map (\<lambda>k. \<bar>?s k\<bar>) ?ks) < 2 ^ 53"
  proof -
    have "sum_list (map (\<lambda>k. \<bar>?s k\<bar>) ?ks)
        \<le> sum_list (map (\<lambda>k. sum_list (map (\<lambda>it. \<bar>?p it\<bar>) (filter (\<lambda>it. grouping_key it = k) ?its))) ?ks)"
      by (intro sum_list_mono abs_sum_list_le)
    also have "\<dots> = sum_list (map (\<lambda>it. \<bar>?p it\<bar>) ?its)"
      using dist sub by (rule sum_by_key)
    finally show ?thesis using bound by simp
  qed
  have sint: "?s k \<in> \<int>" for k
    by (intro Ints_sum_list pint) simp
  have "foldl js_add (Fin 0) (map (\<lambda>k. Fin (?s k)) ?ks)
      = Fin (0 + sum_list (map the_fin (map (\<lambda>k. Fin (?s k)) ?ks)))"
  proof (intro foldl_js_add_exact)
    show "list_all int_price (map (\<lambda>k. Fin (?s k)) ?ks)"
      using sint by (auto simp: list_all_iff int_price_def elim: Ints_cases)
    show "(0::rat) \<in> \<int>" by simp
    show "\<bar>0::rat\<bar> + sum_list (map (\<lambda>x. \<bar>the_fin x\<bar>) (map (\<lambda>k. Fin (?s k)) ?ks)) < 2 ^ 53"
      using sum_abs by (simp add: comp_def)
  qed
  then have "js_sum (map (\<lambda>k. Num (Fin (?s k))) ?ks) = Num (Fin (sum_list (map ?s ?ks)))"
    using foldl_js_plus_Num [of "Fin 0" "map (\<lambda>k. Fin (?s k)) ?ks"]
    by (simp add: js_sum_def comp_def)
  with amounts vals sum_s
  have "js_sum (map amount (spending_summary receipts)) = Num (Fin (sum_list (map ?p ?its)))"
    by simp
  with prices show ?thesis by simp
qed

lemma plain_Food: "inherited ''Food'' = Undefined" "inherited ''Transport'' = Undefined"
  "inherited ''Rent'' = Undefined" "inherited ''Fuel'' = Undefined" "inherited ''Books'' = Undefined"
  by (simp_all add: inherited_def method_names_def)

lemma grouping_key_mk_item: "c \<noteq> [] \<Longrightarrow> grouping_key (mk_item i (Some c) p) = c"
  by (simp add: grouping_key_def mk_item_def)

lemma price_mk_item: "price (mk_item i c p) = p"
  by (simp add: mk_item_def)

lemma all_items_lunch:
  "all_items [lunch] = [mk_item ''i1'' (Some ''Food'') (Fin 30),
     mk_item ''i2'' (Some ''Food'') (Fin 10), mk_item ''i3'' (Some ''Transport'') (Fin 20)]"
  by (simp add: all_items_def lunch_def mk_receipt_def)

theorem amounts_sum_to_prices_witness:
  "small_integer_prices [lunch] \<and> plain_categories [lunch]
   \<and> js_sum (map amount (spending_summary [lunch])) = Num (Fin 60)"
proof -
  have small: "small_integer_prices [lunch]"
    by (simp add: small_integer_prices_def abs_total_def all_items_lunch price_mk_item)
  have plain: "plain_categories [lunch]"
    by (simp add: plain_categories_def all_items_lunch grouping_key_mk_item plain_Food)
  have s: "sum_list (map (\<lambda>it. the_fin (price it)) (all_items [lunch])) = 60"
    by (simp add: all_items_lunch price_mk_item)
  from amounts_sum_to_prices [OF small plain]
  have "js_sum (map amount (spending_summary [lunch]))
          = Num (Fin (sum_list (map (\<lambda>it. the_fin (price it)) (all_items [lunch]))))"
    by (rule conjunct2)
  then have "js_sum (map amount (spending_summary [lunch])) = Num (Fin 60)"
    by (simp only: s)
  with small plain show ?thesis by blast
qed

lemma fl_2_53_0: "fl 9007199254740992 = Fin 9007199254740992"
  by code_simp

lemma fl_2_53_1: "fl 9007199254740993 = Fin 9007199254740992"
  by code_simp

lemma fl_2_53_2: "fl 9007199254740994 = Fin 9007199254740994"
  by code_simp

lemma category_totals_big:
  "category_totals [big_receipt] = [(''Rent'', Num (Fin 9007199254740992)), (''Food'', Num (Fin 2))]"
  by (simp add: category_totals_def add_item_def big_receipt_def mk_receipt_def mk_item_def
      obj_get_def obj_put_def inherited_def method_names_def Let_def fl_2_53_0 fl_2_53_1)

text \<open>
  C2 as stated fails, because additions round: with the prices \<open>2\<^sup>5\<^sup>3\<close> and
  \<open>1\<close> for rent and \<open>1\<close> and \<open>1\<close> for food, the amounts are \<open>2\<^sup>5\<^sup>3\<close> and
  \<open>2\<close> and add up to \<open>2\<^sup>5\<^sup>3 + 2\<close>, while the prices added one after the other
  give \<open>2\<^sup>5\<^sup>3\<close> (and \<open>2\<^sup>5\<^sup>3 + 3\<close> without rounding).
\<close>

theorem amounts_sum_rounding_counterexample:
  "js_sum (map amount (spending_summary [big_receipt])) = Num (Fin 9007199254740994)
   \<and> js_sum (map (\<lambda>it. Num (price it)) (all_items [big_receipt])) = Num (Fin 9007199254740992)
   \<and> js_sum (map amount (spending_summary [big_receipt]))
       \<noteq> js_sum (map (\<lambda>it. Num (price it)) (all_items [big_receipt]))"
proof -
  have a: "js_sum (map amount (spending_summary [big_receipt])) = Num (Fin 9007199254740994)"
    by (simp add: spending_summary_def summary_of_def category_totals_big js_sum_def Let_def
        fl_2_53_0 fl_2_53_2)
  have p: "js_sum (map (\<lambda>it. Num (price it)) (all_items [big_receipt])) = Num (Fin 9007199254740992)"
    by (simp add: js_sum_def all_items_def big_receipt_def mk_receipt_def mk_item_def fl_2_53_0 fl_2_53_1)
  from a p show ?thesis by simp
qed

section \<open>The loop over all receipts\<close>

lemma users_get_plain:
  "inherited k = Undefined \<Longrightarrow>
   users_get u k = (case map_of u k of Some s \<Rightarrow> UsersSet s | None \<Rightarrow> NoUsers)"
  by (simp add: users_get_def split: option.splits)

lemma add_all_item_pure:
  assumes g: "good (fst st)" and ok: "ok_item it"
  shows "add_all_item uid st it = Inr (pure_all_item st (uid, it))"
proof -
  from ok have k: "inherited (grouping_key it) = Undefined" and p: "is_fin (price it)"
    by (simp_all add: ok_item_def)
  have tot: "obj_put (fst st) (grouping_key it)
        (js_plus (js_or (obj_get (fst st) (grouping_key it)) (Num (Fin 0))) (Num (price it)))
      = step (fst st) it"
    using add_user_item_step [OF g k p]
    by (simp add: add_user_item_def Let_def str_or_grouping_key)
  show ?thesis
    by (cases "map_of (snd st) (grouping_key it)")
      (simp_all add: add_all_item_def Let_def str_or_grouping_key tot users_get_plain [OF k]
        pure_all_item_def users_of_def)
qed

lemma fst_pure_all_item: "fst (pure_all_item st oi) = step (fst st) (snd oi)"
  by (simp add: pure_all_item_def)

lemma good_pure_all_item: "good (fst st) \<Longrightarrow> ok_item (snd oi) \<Longrightarrow> good (fst (pure_all_item st oi))"
  by (simp add: fst_pure_all_item good_step ok_item_def)

lemma add_all_items_pure:
  "good (fst st) \<Longrightarrow> list_all ok_item its \<Longrightarrow>
   add_all_items uid st its = Inr (foldl pure_all_item st (map (Pair uid) its))"
proof (induction its arbitrary: st)
  case Nil
  then show ?case by simp
next
  case (Cons it its)
  from Cons.prems have ok: "ok_item it" and rest: "list_all ok_item its" by simp_all
  have g': "good (fst (pure_all_item st (uid, it)))"
    using Cons.prems(1) ok by (simp add: good_pure_all_item)
  show ?case
    by (simp add: add_all_item_pure [OF Cons.prems(1) ok] Cons.IH [OF g' rest])
qed

lemma good_foldl_pure:
  "good (fst st) \<Longrightarrow> list_all (\<lambda>oi. ok_item (snd oi)) ois \<Longrightarrow> good (fst (foldl pure_all_item st ois))"
  by (induction ois arbitrary: st) (simp_all add: good_pure_all_item)

lemma add_all_receipts_pure:
  "good (fst st) \<Longrightarrow> list_all ok_item (all_items rs) \<Longrightarrow>
   add_all_receipts st rs = Inr (foldl pure_all_item st (owned_items rs))"
proof (induction rs arbitrary: st)
  case Nil
  then show ?case by (simp add: owned_items_def)
next
  case (Cons r rs)
  from Cons.prems(2) have ok: "list_all ok_item (items r)" and rest: "list_all ok_item (all_items rs)"
    by (simp_all add: all_items_def)
  let ?st = "foldl pure_all_item st (map (Pair (googleId r)) (items r))"
  have g': "good (fst ?st)"
    using Cons.prems(1) ok by (intro good_foldl_pure) (simp_all add: list_all_iff)
  show ?case
    by (simp add: add_all_items_pure [OF Cons.prems(1) ok] Cons.IH [OF g' rest] owned_items_def)
qed

lemma all_totals_pure:
  "finite_prices rs \<Longrightarrow> plain_categories rs \<Longrightarrow>
   all_totals rs = Inr (foldl pure_all_item ([], []) (owned_items rs))"
  by (simp add: all_totals_def add_all_receipts_pure good_Nil ok_items)

lemma map_snd_owned_items: "map snd (owned_items rs) = all_items rs"
  by (induction rs) (simp_all add: owned_items_def all_items_def comp_def)

lemma fst_foldl_pure: "fst (foldl pure_all_item st ois) = foldl step (fst st) (map snd ois)"
  by (induction ois arbitrary: st) (simp_all add: fst_pure_all_item)

lemma keys_snd_foldl_pure:
  "obj_keys (snd (foldl pure_all_item st ois))
     = foldl set_add (obj_keys (snd st)) (map (\<lambda>oi. grouping_key (snd oi)) ois)"
  by (induction ois arbitrary: st)
    (simp_all add: pure_all_item_def obj_keys_obj_set set_add_def)

lemma users_of_pure:
  "users_of (snd (pure_all_item st oi)) k
     = (if k = grouping_key (snd oi) then set_add (users_of (snd st) k) (fst oi)
        else users_of (snd st) k)"
  by (simp add: pure_all_item_def users_of_def map_of_obj_set)

lemma set_users_of_foldl:
  "set (users_of (snd (foldl pure_all_item st ois)) k)
     = set (users_of (snd st) k) \<union> fst ` {oi \<in> set ois. grouping_key (snd oi) = k}"
proof (induction ois arbitrary: st)
  case Nil
  then show ?case by simp
next
  case (Cons oi ois)
  have first: "set (users_of (snd (pure_all_item st oi)) k)
      = set (users_of (snd st) k) \<union> (if grouping_key (snd oi) = k then {fst oi} else {})"
    by (auto simp: users_of_pure set_set_add)
  have split: "fst ` {x \<in> set (oi # ois). grouping_key (snd x) = k}
      = (if grouping_key (snd oi) = k then {fst oi} else {})
        \<union> fst ` {x \<in> set ois. grouping_key (snd x) = k}"
    by (force simp: image_iff)
  have "set (users_of (snd (foldl pure_all_item st (oi # ois))) k)
      = set (users_of (snd (pure_all_item st oi)) k)
        \<union> fst ` {x \<in> set ois. grouping_key (snd x) = k}"
    by (simp add: Cons.IH)
  also have "\<dots> = set (users_of (snd st) k) \<union> fst ` {x \<in> set (oi # ois). grouping_key (snd x) = k}"
    unfolding first split by blast
  finally show ?case .
qed

lemma distinct_users_of_foldl:
  "distinct (users_of (snd st) k) \<Longrightarrow>
   distinct (users_of (snd (foldl pure_all_item st ois)) k)"
proof (induction ois arbitrary: st)
  case Nil
  then show ?case by simp
next
  case (Cons oi ois)
  from Cons.prems have "distinct (users_of (snd (pure_all_item st oi)) k)"
    by (auto simp: users_of_pure distinct_set_add)
  from Cons.IH [OF this] show ?case by simp
qed

lemma owned_items_contributors:
  "fst ` {oi \<in> set (owned_items rs). grouping_key (snd oi) = k} = contributors rs k"
  by (auto simp: owned_items_def contributors_def list_ex_iff image_iff) force+

lemma users_of_Nil: "users_of [] k = []"
  by (simp add: users_of_def)

lemma length_users_of:
  "length (users_of (snd (foldl pure_all_item ([], []) (owned_items rs))) k)
     = card (contributors rs k)"
proof -
  let ?u = "users_of (snd (foldl pure_all_item ([], []) (owned_items rs))) k"
  have s: "set ?u = contributors rs k"
    using set_users_of_foldl [of "([], [])" "owned_items rs" k]
    by (simp add: users_of_Nil owned_items_contributors)
  have d: "distinct ?u"
    using distinct_users_of_foldl [of "([], [])" k "owned_items rs"] by (simp add: users_of_Nil)
  from distinct_card [OF d] s show ?thesis by simp
qed

lemma averages_loop_total:
  assumes "set cats \<subseteq> set (obj_keys usersByCategory)"
    and "set cats \<subseteq> set (obj_keys allTotals)"
    and "\<forall>cat \<in> set cats. inherited cat = Undefined"
  shows "averages_loop allTotals usersByCategory cats av
     = Inr (foldl (\<lambda>av cat. obj_set av cat (avg_of allTotals usersByCategory cat)) av cats)"
  using assms
proof (induction cats arbitrary: av)
  case Nil
  then show ?case by simp
next
  case (Cons cat cats)
  from Cons.prems have k: "inherited cat = Undefined" by simp
  from Cons.prems obtain users where u: "map_of usersByCategory cat = Some users"
    using map_of_None_iff [of usersByCategory cat] by (cases "map_of usersByCategory cat") auto
  from Cons.prems obtain v where v: "map_of allTotals cat = Some v"
    using map_of_None_iff [of allTotals cat] by (cases "map_of allTotals cat") auto
  have c: "to_number (obj_get allTotals cat) = cur allTotals cat"
    by (simp add: obj_get_def cur_def v)
  have rest: "set cats \<subseteq> set (obj_keys usersByCategory)" "set cats \<subseteq> set (obj_keys allTotals)"
    "\<forall>cat \<in> set cats. inherited cat = Undefined"
    using Cons.prems by simp_all
  show ?case
    by (simp add: users_get_def u c obj_put_plain [OF k] avg_of_def users_of_def
        Cons.IH [OF rest])
qed


lemma obj_keys_foldl_set:
  "obj_keys (foldl (\<lambda>av cat. obj_set av cat (g cat)) av cats) = foldl set_add (obj_keys av) cats"
  by (induction cats arbitrary: av) (simp_all add: obj_keys_obj_set set_add_def)

lemma contributors_nonempty:
  "it \<in> set (all_items rs) \<Longrightarrow> contributors rs (grouping_key it) \<noteq> {}"
  by (auto simp: contributors_def all_items_def list_ex_iff filter_empty_conv)

lemma contributors_empty:
  "k \<notin> grouping_key ` set (all_items rs) \<Longrightarrow> contributors rs k = {}"
  by (auto simp: contributors_def all_items_def list_ex_iff filter_empty_conv)

lemma finite_contributors: "finite (contributors rs k)"
  by (simp add: contributors_def)

text \<open>
  With finite prices and ordinary category names nothing is thrown, and the averages are
  the quotients of the totals by the numbers of contributing owners.
\<close>

lemma averages_of_plain:
  assumes fin: "finite_prices rs" and plain: "plain_categories rs"
  defines "st \<equiv> foldl pure_all_item ([], []) (owned_items rs)"
  defines "av \<equiv> foldl (\<lambda>av cat. obj_set av cat (avg_of (fst st) (snd st) cat)) [] (obj_keys (fst st))"
  shows "averages_of rs = Inr av"
    and "good (fst st)"
    and "set (obj_keys (fst st)) = grouping_key ` set (all_items rs)"
    and "set (obj_keys av) = grouping_key ` set (all_items rs)"
    and "cur (fst st) k = category_total rs k"
    and "length (users_of (snd st) k) = card (contributors rs k)"
proof -
  have ok: "list_all (\<lambda>oi. ok_item (snd oi)) (owned_items rs)"
    using ok_items [OF fin plain] map_snd_owned_items [of rs]
    by (metis list_all_iff list.set_map image_iff)
  show g: "good (fst st)"
    unfolding st_def using ok by (intro good_foldl_pure) (simp_all add: good_Nil)
  have f: "fst st = foldl step [] (all_items rs)"
    by (simp add: st_def fst_foldl_pure map_snd_owned_items)
  show k1: "set (obj_keys (fst st)) = grouping_key ` set (all_items rs)"
    by (simp add: f keys_foldl_step_Nil set_new_set)
  have k2: "obj_keys (snd st) = new_set (map grouping_key (all_items rs))"
    using keys_snd_foldl_pure [of "([], [])" "owned_items rs"]
    by (simp add: st_def new_set_def obj_keys_Nil map_snd_owned_items [symmetric] comp_def)
  have plain_keys: "\<forall>cat \<in> set (obj_keys (fst st)). inherited cat = Undefined"
    using plain by (auto simp: k1 plain_categories_def list_all_iff)
  have "averages_loop (fst st) (snd st) (obj_keys (fst st)) [] = Inr av"
    unfolding av_def
    by (rule averages_loop_total) (simp_all add: k1 k2 set_new_set plain_keys)
  then show "averages_of rs = Inr av"
    by (simp add: averages_of_def all_totals_pure [OF fin plain] st_def)
  show "set (obj_keys av) = grouping_key ` set (all_items rs)"
    by (simp add: av_def obj_keys_foldl_set set_foldl_set_add obj_keys_Nil k1)
  show "cur (fst st) k = category_total rs k"
    by (simp add: f cur_foldl_step cur_Nil category_total_def)
  show "length (users_of (snd st) k) = card (contributors rs k)"
    unfolding st_def by (rule length_users_of)
qed


lemma fl_half [simp]: "fl (1 / 2) = Fin (1 / 2)"
  by code_simp

lemma fl_3_2 [simp]: "fl (3 / 2) = Fin (3 / 2)"
  by code_simp

lemma fl_3_4 [simp]: "fl (3 / 4) = Fin (3 / 4)"
  by code_simp

lemma fl_1_4 [simp]: "fl (1 / 4) = Fin (1 / 4)"
  by code_simp

lemma fl_49_2 [simp]: "fl (49 / 2) = Fin (49 / 2)"
  by code_simp





text \<open>
  A category that names a built-in method: the loop over all receipts throws, and the
  handler, which has no \<^verbatim>\<open>try\<close>, lets the exception escape.
\<close>

lemma constructor_category_throws:
  "averages_of [constructor_receipt] = Inl TypeError
   \<and> comparison_summary [] [constructor_receipt] = Inl TypeError
   \<and> comparison_summary_handler (Some ''g-1'') (Inr []) (Inr [constructor_receipt])
       = Escaped TypeError"
  by (simp add: comparison_summary_handler_def comparison_summary_def averages_of_def
      all_totals_def add_all_item_def users_get_def constructor_receipt_def mk_receipt_def
      mk_item_def inherited_def method_names_def Let_def)

section \<open>The entries of the comparison\<close>

lemma category_compare_category [simp]: "c_category (compare_category u a cat) = cat"
  by (simp add: compare_category_def Let_def)

lemma categories_comparison:
  "map c_category (comparison userTotals averages) = new_set (obj_keys userTotals @ obj_keys averages)"
  by (simp add: comparison_def Let_def comp_def)

lemma good_key_plain: "good t \<Longrightarrow> k \<in> set (obj_keys t) \<Longrightarrow> inherited k = Undefined"
  by (auto simp: good_def obj_keys_def list_all_iff)

lemma spent_good: "good t \<Longrightarrow> inherited k = Undefined \<Longrightarrow> spent t k = cur t k"
proof (cases "truthy (obj_get t k)")
  case True
  assume "good t" "inherited k = Undefined"
  from truthy_cur [OF this True] True show ?thesis by (simp add: spent_def js_or_def)
next
  case False
  assume "good t" "inherited k = Undefined"
  from falsy_cur [OF this False] False show ?thesis by (simp add: spent_def js_or_def)
qed

lemma entry_of_difference:
  "difference (compare_category u a cat) = js_abs (js_round (js_sub (spent u cat) (spent a cat)))"
  "isHigher (compare_category u a cat) = js_gt (js_round (js_sub (spent u cat) (spent a cat))) (Fin 0)"
  by (simp_all add: compare_category_def spent_def Let_def)

lemma round_positive_iff: "0 < \<lfloor>d + 1 / 2 :: rat\<rfloor> \<longleftrightarrow> 1 / 2 \<le> d"
  by linarith

text \<open>
  C5. The comparison has one entry per category in the union of the keys of the owner's
  totals and of the averages, no category twice. When the keys are ordinary names and
  the values Numbers other than \<open>NaN\<close>, the entry of a category is determined by the
  difference \<open>d\<close> of the two values, a missing one taken as \<open>0\<close>: the entry holds
  the absolute value of \<open>d\<close> rounded to the nearest integer, a tie going up, and the
  flag is set exactly when the rounded value is positive, that is when \<open>d\<close> is at least
  one half. An infinite difference gives an infinite entry, flagged when positive.
\<close>

theorem comparison_one_entry_per_category:
  "distinct (map c_category (comparison userTotals averages))
   \<and> set (map c_category (comparison userTotals averages))
       = set (obj_keys userTotals) \<union> set (obj_keys averages)
   \<and> (good userTotals \<and> good averages \<longrightarrow>
        (\<forall>e \<in> set (comparison userTotals averages).
           case js_sub (cur userTotals (c_category e)) (cur averages (c_category e)) of
             Fin d \<Rightarrow> difference e = Fin \<bar>of_int \<lfloor>d + 1 / 2\<rfloor>\<bar> \<and> (isHigher e \<longleftrightarrow> 1 / 2 \<le> d)
           | PInf \<Rightarrow> difference e = PInf \<and> isHigher e
           | NInf \<Rightarrow> difference e = PInf \<and> \<not> isHigher e
           | NaN \<Rightarrow> difference e = NaN \<and> \<not> isHigher e))"
proof -
  have 1: "distinct (map c_category (comparison userTotals averages))"
    by (simp only: categories_comparison distinct_new_set)
  have 2: "set (map c_category (comparison userTotals averages))
       = set (obj_keys userTotals) \<union> set (obj_keys averages)"
    by (simp only: categories_comparison set_new_set set_append)
  have 3: "case js_sub (cur userTotals (c_category e)) (cur averages (c_category e)) of
             Fin d \<Rightarrow> difference e = Fin \<bar>of_int \<lfloor>d + 1 / 2\<rfloor>\<bar> \<and> (isHigher e \<longleftrightarrow> 1 / 2 \<le> d)
           | PInf \<Rightarrow> difference e = PInf \<and> isHigher e
           | NInf \<Rightarrow> difference e = PInf \<and> \<not> isHigher e
           | NaN \<Rightarrow> difference e = NaN \<and> \<not> isHigher e"
    if g: "good userTotals" "good averages" and e: "e \<in> set (comparison userTotals averages)" for e
  proof -
    from e obtain cat where cat: "e = compare_category userTotals averages cat"
      and mem: "cat \<in> set (obj_keys userTotals) \<union> set (obj_keys averages)"
      by (auto simp: comparison_def Let_def set_new_set)
    from mem g have k: "inherited cat = Undefined"
      by (auto dest: good_key_plain)
    have u: "spent userTotals cat = cur userTotals cat" using g(1) k by (rule spent_good)
    have a: "spent averages cat = cur averages cat" using g(2) k by (rule spent_good)
    show ?thesis
      by (cases "js_sub (cur userTotals cat) (cur averages cat)")
        (auto simp: cat entry_of_difference u a)
  qed
  from 1 2 3 show ?thesis by blast
qed

lemma good_some: "good some_totals" "good some_averages"
  by (simp_all add: good_def some_totals_def some_averages_def plain_Food)

lemma cur_some:
  "cur some_totals ''Food'' = Fin 100" "cur some_totals ''Books'' = Fin 20"
  "cur some_totals ''Fuel'' = Fin 0"
  "cur some_averages ''Food'' = Fin (151 / 2)" "cur some_averages ''Books'' = Fin 0"
  "cur some_averages ''Fuel'' = Fin 9"
  by (simp_all add: cur_def some_totals_def some_averages_def)

theorem comparison_one_entry_per_category_witness:
  "good some_totals \<and> good some_averages
   \<and> map c_category (comparison some_totals some_averages) = [''Food'', ''Books'', ''Fuel'']
   \<and> (\<exists>e \<in> set (comparison some_totals some_averages).
         c_category e = ''Food'' \<and> difference e = Fin 25 \<and> isHigher e)
   \<and> (\<exists>e \<in> set (comparison some_totals some_averages).
         c_category e = ''Books'' \<and> difference e = Fin 20 \<and> isHigher e)
   \<and> (\<exists>e \<in> set (comparison some_totals some_averages).
         c_category e = ''Fuel'' \<and> difference e = Fin 9 \<and> \<not> isHigher e)"
proof -
  let ?cmp = "comparison some_totals some_averages"
  have cats: "map c_category ?cmp = [''Food'', ''Books'', ''Fuel'']"
    by (simp add: categories_comparison new_set_def set_add_def obj_keys_def some_totals_def
        some_averages_def)
  from comparison_one_entry_per_category [of some_totals some_averages] good_some
  have each: "\<forall>e \<in> set ?cmp.
           case js_sub (cur some_totals (c_category e)) (cur some_averages (c_category e)) of
             Fin d \<Rightarrow> difference e = Fin \<bar>of_int \<lfloor>d + 1 / 2\<rfloor>\<bar> \<and> (isHigher e \<longleftrightarrow> 1 / 2 \<le> d)
           | PInf \<Rightarrow> difference e = PInf \<and> isHigher e
           | NInf \<Rightarrow> difference e = PInf \<and> \<not> isHigher e
           | NaN \<Rightarrow> difference e = NaN \<and> \<not> isHigher e"
    by blast
  have ex: "\<exists>e \<in> set ?cmp. c_category e = c" if "c \<in> set [''Food'', ''Books'', ''Fuel'']" for c
    using that cats by (metis (no_types, lifting) image_iff list.set_map)
  have food: "\<exists>e \<in> set ?cmp. c_category e = ''Food'' \<and> difference e = Fin 25 \<and> isHigher e"
  proof -
    from ex obtain e where e: "e \<in> set ?cmp" "c_category e = ''Food''" by force
    have "js_sub (cur some_totals ''Food'') (cur some_averages ''Food'') = Fin (49 / 2)"
      by (simp add: cur_some js_sub_def)
    with each e have "difference e = Fin \<bar>of_int \<lfloor>(49 / 2 :: rat) + 1 / 2\<rfloor>\<bar> \<and> (isHigher e \<longleftrightarrow> 1 / 2 \<le> (49 / 2 :: rat))"
      by fastforce
    then have "difference e = Fin 25 \<and> isHigher e" by simp
    with e show ?thesis by blast
  qed
  have books: "\<exists>e \<in> set ?cmp. c_category e = ''Books'' \<and> difference e = Fin 20 \<and> isHigher e"
  proof -
    from ex obtain e where e: "e \<in> set ?cmp" "c_category e = ''Books''" by force
    have "js_sub (cur some_totals ''Books'') (cur some_averages ''Books'') = Fin 20"
      by (simp add: cur_some js_sub_def)
    with each e have "difference e = Fin \<bar>of_int \<lfloor>(20 :: rat) + 1 / 2\<rfloor>\<bar> \<and> (isHigher e \<longleftrightarrow> 1 / 2 \<le> (20 :: rat))"
      by fastforce
    then have "difference e = Fin 20 \<and> isHigher e" by simp
    with e show ?thesis by blast
  qed
  have fuel: "\<exists>e \<in> set ?cmp. c_category e = ''Fuel'' \<and> difference e = Fin 9 \<and> \<not> isHigher e"
  proof -
    from ex obtain e where e: "e \<in> set ?cmp" "c_category e = ''Fuel''" by force
    have "js_sub (cur some_totals ''Fuel'') (cur some_averages ''Fuel'') = Fin (- 9)"
      by (simp add: cur_some js_sub_def)
    with each e have "difference e = Fin \<bar>of_int \<lfloor>(- 9 :: rat) + 1 / 2\<rfloor>\<bar> \<and> (isHigher e \<longleftrightarrow> 1 / 2 \<le> (- 9 :: rat))"
      by fastforce
    then have "difference e = Fin 9 \<and> \<not> isHigher e" by simp
    with e show ?thesis by blast
  qed
  from good_some cats food books fuel show ?thesis by blast
qed

section \<open>The sign of the comparison\<close>

lemma js_sub_Fin: "js_sub (Fin x) (Fin y) = fl (x - y)"
  by (simp add: js_sub_def)

lemma js_sub_positive:
  assumes "js_sub u a = PInf \<or> (\<exists>d. js_sub u a = Fin d \<and> 0 < d)"
  shows "js_gt u a"
proof (cases u)
  case (Fin x)
  show ?thesis
  proof (cases a)
    case (Fin y)
    with \<open>u = Fin x\<close> assms have "fl (x - y) = PInf \<or> (\<exists>d. fl (x - y) = Fin d \<and> 0 < d)"
      by (simp add: js_sub_Fin)
    then have "0 < x - y" by (auto dest: fl_PInf_pos fl_Fin_pos)
    with Fin \<open>u = Fin x\<close> show ?thesis by simp
  qed (use Fin assms in \<open>simp_all add: js_sub_def\<close>)
next
  case NaN
  with assms show ?thesis by (simp add: js_sub_def)
next
  case PInf
  with assms show ?thesis by (cases a) (simp_all add: js_sub_def)
next
  case NInf
  with assms show ?thesis by (cases a) (simp_all add: js_sub_def)
qed

lemma comparison_summary_Inr:
  "comparison_summary userReceipts allReceipts = Inr cmp \<Longrightarrow>
   \<exists>averages. averages_of allReceipts = Inr averages
     \<and> cmp = comparison (user_totals userReceipts) averages"
  by (auto simp: comparison_summary_def split: sum.splits)

text \<open>
  C3, as amended. In every entry that the comparison produces, the difference is never
  negative: it is a non-negative number, infinite, or \<open>NaN\<close>. When the
  difference \<open>d\<close> of the owner's total and the peer average, as the code subtracts
  them, is finite, the entry holds the absolute value of \<open>d\<close> rounded to the nearest
  integer, a tie going up. The flag \<open>isHigher\<close> is set exactly when \<open>d\<close> is at
  least one half or is positive infinity (the difference is rounded before its sign is
  taken); a set flag implies that the owner's
  total exceeds the peer average; and when the two are the same finite number, the
  difference is \<open>0\<close> and the flag is not set.
\<close>

theorem comparison_sign_after_rounding:
  assumes "comparison_summary userReceipts allReceipts = Inr cmp"
  shows "\<exists>averages. averages_of allReceipts = Inr averages
     \<and> (\<forall>e \<in> set cmp.
          (difference e = NaN \<or> difference e = PInf \<or> (\<exists>d. difference e = Fin d \<and> 0 \<le> d))
        \<and> (\<forall>d. js_sub (spent (user_totals userReceipts) (c_category e))
                       (spent averages (c_category e)) = Fin d
              \<longrightarrow> difference e = Fin \<bar>of_int \<lfloor>d + 1 / 2\<rfloor>\<bar>)
        \<and> (isHigher e \<longleftrightarrow>
             (case js_sub (spent (user_totals userReceipts) (c_category e))
                          (spent averages (c_category e)) of
                Fin d \<Rightarrow> 1 / 2 \<le> d | PInf \<Rightarrow> True | NInf \<Rightarrow> False | NaN \<Rightarrow> False))
        \<and> (isHigher e \<longrightarrow>
             js_gt (spent (user_totals userReceipts) (c_category e)) (spent averages (c_category e)))
        \<and> (\<forall>r. spent (user_totals userReceipts) (c_category e) = Fin r
                \<and> spent averages (c_category e) = Fin r
              \<longrightarrow> difference e = Fin 0 \<and> \<not> isHigher e))"
proof -
  from comparison_summary_Inr [OF assms] obtain averages where
    av: "averages_of allReceipts = Inr averages"
    and cmp: "cmp = comparison (user_totals userReceipts) averages"
    by blast
  let ?U = "user_totals userReceipts"
  have each:
    "(difference e = NaN \<or> difference e = PInf \<or> (\<exists>d. difference e = Fin d \<and> 0 \<le> d))
        \<and> (\<forall>d. js_sub (spent ?U (c_category e)) (spent averages (c_category e)) = Fin d
              \<longrightarrow> difference e = Fin \<bar>of_int \<lfloor>d + 1 / 2\<rfloor>\<bar>)
        \<and> (isHigher e \<longleftrightarrow>
             (case js_sub (spent ?U (c_category e)) (spent averages (c_category e)) of
                Fin d \<Rightarrow> 1 / 2 \<le> d | PInf \<Rightarrow> True | NInf \<Rightarrow> False | NaN \<Rightarrow> False))
        \<and> (isHigher e \<longrightarrow> js_gt (spent ?U (c_category e)) (spent averages (c_category e)))
        \<and> (\<forall>r. spent ?U (c_category e) = Fin r \<and> spent averages (c_category e) = Fin r
              \<longrightarrow> difference e = Fin 0 \<and> \<not> isHigher e)"
    if "e \<in> set cmp" for e
  proof -
    from that cmp obtain cat where e: "e = compare_category ?U averages cat"
      by (auto simp: comparison_def Let_def)
    let ?x = "js_sub (spent ?U cat) (spent averages cat)"
    have d: "difference e = js_abs (js_round ?x)" and h: "isHigher e = js_gt (js_round ?x) (Fin 0)"
      by (simp_all add: e entry_of_difference)
    have c: "c_category e = cat" by (simp add: e)
    have 1: "difference e = NaN \<or> difference e = PInf \<or> (\<exists>d. difference e = Fin d \<and> 0 \<le> d)"
      unfolding d by (cases ?x) simp_all
    have 5: "\<forall>d. ?x = Fin d \<longrightarrow> difference e = Fin \<bar>of_int \<lfloor>d + 1 / 2\<rfloor>\<bar>"
      unfolding d by simp
    have 2: "isHigher e \<longleftrightarrow>
             (case ?x of Fin d \<Rightarrow> 1 / 2 \<le> d | PInf \<Rightarrow> True | NInf \<Rightarrow> False | NaN \<Rightarrow> False)"
      unfolding h by (cases ?x) auto
    have 3: "isHigher e \<longrightarrow> js_gt (spent ?U cat) (spent averages cat)"
    proof
      assume "isHigher e"
      with 2 have "?x = PInf \<or> (\<exists>d. ?x = Fin d \<and> 0 < d)"
        by (cases ?x) auto
      then show "js_gt (spent ?U cat) (spent averages cat)" by (rule js_sub_positive)
    qed
    have 4: "\<forall>r. spent ?U cat = Fin r \<and> spent averages cat = Fin r
              \<longrightarrow> difference e = Fin 0 \<and> \<not> isHigher e"
      unfolding d h by (auto simp: js_sub_Fin fl_zero)
    from 1 2 3 4 5 show ?thesis unfolding c by blast
  qed
  from av each show ?thesis by blast
qed

lemma user_totals_1: "user_totals [owner_1] = [(''Food'', Num (Fin 1))]"
  by (simp add: user_totals_def add_user_item_def owner_1_def mk_receipt_def mk_item_def
      obj_get_def obj_put_def js_or_def inherited_def method_names_def Let_def)

lemma averages_12: "averages_of [owner_1, owner_2] = Inr [(''Food'', Num (Fin (3 / 4)))]"
  by (simp add: averages_of_def all_totals_def add_all_item_def owner_1_def owner_2_def
      mk_receipt_def mk_item_def obj_get_def obj_put_def obj_keys_def users_get_def js_or_def
      set_add_def inherited_def method_names_def Let_def)

lemma spent_12:
  "spent [(''Food'', Num (Fin 1))] ''Food'' = Fin 1"
  "spent [(''Food'', Num (Fin (3 / 4)))] ''Food'' = Fin (3 / 4)"
  by (simp_all add: spent_def obj_get_def js_or_def)

lemma comparison_12:
  "comparison [(''Food'', Num (Fin 1))] [(''Food'', Num (Fin (3 / 4)))]
     = [\<lparr>c_category = ''Food'', difference = Fin 0, isHigher = False\<rparr>]"
  by (simp add: comparison_def compare_category_def new_set_def set_add_def obj_keys_def
      obj_get_def js_or_def js_sub_def Let_def)

lemma comparison_summary_12:
  "comparison_summary [owner_1] [owner_1, owner_2]
     = Inr [\<lparr>c_category = ''Food'', difference = Fin 0, isHigher = False\<rparr>]"
  by (simp add: comparison_summary_def averages_12 user_totals_1 comparison_12)

lemma comparison_summary_inf:
  "comparison_summary [owner_inf] [owner_inf]
     = Inr [\<lparr>c_category = ''Food'', difference = NaN, isHigher = False\<rparr>]"
  by (simp add: comparison_summary_def averages_of_def all_totals_def add_all_item_def
      user_totals_def add_user_item_def comparison_def compare_category_def spent_def
      owner_inf_def mk_receipt_def mk_item_def obj_get_def obj_put_def obj_keys_def
      users_get_def js_or_def js_sub_def new_set_def set_add_def inherited_def method_names_def
      inf_of_sign_def Let_def)

lemma spent_inf:
  "spent (user_totals [owner_inf]) ''Food'' = PInf"
  "averages_of [owner_inf] = Inr [(''Food'', Num PInf)]"
  by (simp_all add: averages_of_def all_totals_def add_all_item_def
      user_totals_def add_user_item_def spent_def
      owner_inf_def mk_receipt_def mk_item_def obj_get_def obj_put_def obj_keys_def
      users_get_def js_or_def set_add_def inherited_def method_names_def
      inf_of_sign_def Let_def)

text \<open>
  C3 as stated fails twice. The owner spent \<open>1\<close> on food and the peer average is
  \<open>3 / 4\<close>: the flag is not set although the total exceeds the average. The owner's
  only price is infinite, so that the total and the average are both infinite: the
  difference is \<open>NaN\<close>, which is neither \<open>0\<close> nor a non-negative number.
\<close>

theorem isHigher_strict_counterexample:
  "comparison_summary [owner_1] [owner_1, owner_2]
     = Inr [\<lparr>c_category = ''Food'', difference = Fin 0, isHigher = False\<rparr>]
   \<and> spent (user_totals [owner_1]) ''Food'' = Fin 1
   \<and> averages_of [owner_1, owner_2] = Inr [(''Food'', Num (Fin (3 / 4)))]
   \<and> \<not> (isHigher \<lparr>c_category = ''Food'', difference = Fin 0, isHigher = False\<rparr>
           \<longleftrightarrow> js_gt (Fin 1) (Fin (3 / 4)))
   \<and> comparison_summary [owner_inf] [owner_inf]
     = Inr [\<lparr>c_category = ''Food'', difference = NaN, isHigher = False\<rparr>]
   \<and> spent (user_totals [owner_inf]) ''Food'' = PInf
   \<and> averages_of [owner_inf] = Inr [(''Food'', Num PInf)]
   \<and> \<not> non_negative_decimal (difference \<lparr>c_category = ''Food'', difference = NaN, isHigher = False\<rparr>)"
  by (simp add: comparison_summary_12 user_totals_1 spent_12 averages_12 comparison_summary_inf
      spent_inf non_negative_decimal_def)

lemma fl_5_2 [simp]: "fl (5 / 2) = Fin (5 / 2)"
  by code_simp

lemma user_totals_4: "user_totals [owner_4] = [(''Food'', Num (Fin 4))]"
  by (simp add: user_totals_def add_user_item_def owner_4_def mk_receipt_def mk_item_def
      obj_get_def obj_put_def js_or_def inherited_def method_names_def Let_def)

lemma averages_14: "averages_of [owner_1, owner_4] = Inr [(''Food'', Num (Fin (5 / 2)))]"
  by (simp add: averages_of_def all_totals_def add_all_item_def owner_1_def owner_4_def
      mk_receipt_def mk_item_def obj_get_def obj_put_def obj_keys_def users_get_def js_or_def
      set_add_def inherited_def method_names_def Let_def)

lemma spent_14:
  "spent [(''Food'', Num (Fin 4))] ''Food'' = Fin 4"
  "spent [(''Food'', Num (Fin (5 / 2)))] ''Food'' = Fin (5 / 2)"
  by (simp_all add: spent_def obj_get_def js_or_def)

lemma comparison_summary_14:
  "comparison_summary [owner_4] [owner_1, owner_4]
     = Inr (comparison [(''Food'', Num (Fin 4))] [(''Food'', Num (Fin (5 / 2)))])"
  by (simp add: comparison_summary_def averages_14 user_totals_4)

lemma categories_14:
  "map c_category (comparison [(''Food'', Num (Fin 4))] [(''Food'', Num (Fin (5 / 2)))]) = [''Food'']"
  by (simp add: categories_comparison new_set_def set_add_def obj_keys_def)

theorem comparison_sign_after_rounding_witness:
  "comparison_summary [owner_1] [owner_1, owner_2]
     = Inr [\<lparr>c_category = ''Food'', difference = Fin 0, isHigher = False\<rparr>]
   \<and> js_sub (spent (user_totals [owner_1]) ''Food'') (spent [(''Food'', Num (Fin (3 / 4)))] ''Food'')
       = Fin (1 / 4)
   \<and> comparison_summary [owner_4] [owner_1, owner_4]
     = Inr [\<lparr>c_category = ''Food'', difference = Fin 2, isHigher = True\<rparr>]
   \<and> js_sub (spent (user_totals [owner_4]) ''Food'') (spent [(''Food'', Num (Fin (5 / 2)))] ''Food'')
       = Fin (3 / 2)"
proof -
  let ?e = "\<lparr>c_category = ''Food'', difference = Fin 0, isHigher = False\<rparr>"
  note run = comparison_summary_12
  from comparison_sign_after_rounding [OF run] averages_12
  have "isHigher ?e \<longleftrightarrow>
             (case js_sub (spent (user_totals [owner_1]) (c_category ?e))
                          (spent [(''Food'', Num (Fin (3 / 4)))] (c_category ?e)) of
                Fin d \<Rightarrow> 1 / 2 \<le> d | PInf \<Rightarrow> True | NInf \<Rightarrow> False | NaN \<Rightarrow> False)"
    by auto
  moreover have sub1: "js_sub (spent (user_totals [owner_1]) ''Food'') (spent [(''Food'', Num (Fin (3 / 4)))] ''Food'')
       = Fin (1 / 4)"
    by (simp add: user_totals_1 spent_12 js_sub_def)
  \<comment> \<open>the second run: the entry follows from the theorem and the subtraction alone\<close>
  let ?cmp = "comparison [(''Food'', Num (Fin 4))] [(''Food'', Num (Fin (5 / 2)))]"
  note run4 = comparison_summary_14
  have sub4: "js_sub (spent (user_totals [owner_4]) ''Food'') (spent [(''Food'', Num (Fin (5 / 2)))] ''Food'')
       = Fin (3 / 2)"
    by (simp add: user_totals_4 spent_14 js_sub_def)
  from categories_14 obtain e where cmp: "?cmp = [e]" and cat: "c_category e = ''Food''"
    by (cases ?cmp) auto
  from comparison_sign_after_rounding [OF run4] averages_14
  have "\<forall>e \<in> set ?cmp.
          (\<forall>d. js_sub (spent (user_totals [owner_4]) (c_category e))
                       (spent [(''Food'', Num (Fin (5 / 2)))] (c_category e)) = Fin d
              \<longrightarrow> difference e = Fin \<bar>of_int \<lfloor>d + 1 / 2\<rfloor>\<bar>)
        \<and> (isHigher e \<longleftrightarrow>
             (case js_sub (spent (user_totals [owner_4]) (c_category e))
                          (spent [(''Food'', Num (Fin (5 / 2)))] (c_category e)) of
                Fin d \<Rightarrow> 1 / 2 \<le> d | PInf \<Rightarrow> True | NInf \<Rightarrow> False | NaN \<Rightarrow> False))"
    by auto
  with cmp cat sub4 have "(\<forall>d. Fin (3 / 2) = Fin d \<longrightarrow> difference e = Fin \<bar>of_int \<lfloor>d + 1 / 2\<rfloor>\<bar>)
      \<and> isHigher e"
    by simp
  then have "difference e = Fin \<bar>of_int \<lfloor>(3 / 2 :: rat) + 1 / 2\<rfloor>\<bar> \<and> isHigher e"
    by blast
  then have "difference e = Fin 2 \<and> isHigher e" by simp
  with cat have "e = \<lparr>c_category = ''Food'', difference = Fin 2, isHigher = True\<rparr>"
    by (cases e) simp
  with cmp run4 have "comparison_summary [owner_4] [owner_1, owner_4]
     = Inr [\<lparr>c_category = ''Food'', difference = Fin 2, isHigher = True\<rparr>]"
    by simp
  with calculation sub1 sub4 run show ?thesis by simp
qed

section \<open>The two copies of the aggregation\<close>

lemma ai_add_item_eq: "ai_add_item = add_item"
  by (intro ext) (simp add: ai_add_item_def add_item_def)

text \<open>
  C10. The list that GET /api/ai-summary hands to the summary call is, for every
  collection of receipts, the list that GET /spending-summary answers with: the two
  handlers aggregate in the same way.
\<close>

theorem ai_summary_same_aggregation:
  "ai_receipt_summary receipts = spending_summary receipts"
  by (simp add: ai_receipt_summary_def spending_summary_def summary_of_def total_spent_def
      ai_category_totals_def category_totals_def ai_add_item_eq Let_def)

section \<open>Failures of the store\<close>

text \<open>
  C8. GET /comparison-summary does not catch the failure of either of its two store
  queries: the failure escapes the handler and no response is sent, where
  GET /spending-summary answers the same failure with status 500.
\<close>

theorem comparison_store_failure_escapes:
  "comparison_summary_handler (Some ''u1'') (Inl StoreFailure) (Inr []) = Escaped StoreFailure
   \<and> comparison_summary_handler (Some ''u1'') (Inr []) (Inl StoreFailure) = Escaped StoreFailure
   \<and> spending_summary_handler (Some ''u1'') (Inl StoreFailure)
       = Responded 500 (Text ''Error generating summary'')"
  by (simp add: comparison_summary_handler_def spending_summary_handler_def)

section \<open>Creating a profile twice\<close>

lemma findOne_Some: "findOne users g = Some u \<Longrightarrow> u \<in> set users \<and> u_googleId u = g"
  unfolding findOne_def by (auto simp: find_Some_iff)

lemma findOne_append_new:
  "findOne users g = None \<Longrightarrow> u_googleId u = g \<Longrightarrow> findOne (users @ [u]) g = Some u"
  unfolding findOne_def by (induction users) auto

text \<open>
  C6. When a call of POST /api/users has answered with a profile, a second call with
  the same owner identifier, whatever its other fields, answers with the same status and
  the same profile and leaves the store as it was; after the first call the store holds
  one profile of that owner if it held none before, and as many as before otherwise.
\<close>

theorem post_users_idempotent:
  assumes same: "u_googleId second = u_googleId first"
    and first: "post_users users first = (users', UserJson code profile)"
  shows "post_users users' second = (users', UserJson code profile)
         \<and> length (filter (\<lambda>u. u_googleId u = u_googleId first) users')
             = max 1 (length (filter (\<lambda>u. u_googleId u = u_googleId first) users))"
proof (cases "findOne users (u_googleId first)")
  case (Some found)
  with first have eq: "users' = users" "code = 201" "profile = found"
    by (simp_all add: post_users_def)
  from Some have "found \<in> set users" "u_googleId found = u_googleId first"
    by (simp_all add: findOne_Some)
  then have "filter (\<lambda>u. u_googleId u = u_googleId first) users \<noteq> []"
    by (auto simp: filter_empty_conv)
  then have "1 \<le> length (filter (\<lambda>u. u_googleId u = u_googleId first) users)"
    by (cases "filter (\<lambda>u. u_googleId u = u_googleId first) users") simp_all
  with Some eq same show ?thesis
    by (simp add: post_users_def)
next
  case None
  define newUser where "newUser = \<lparr>u_googleId = u_googleId first, email = email first,
      firstName = firstName first, lastName = lastName first, picture = picture first\<rparr>"
  from None first have sv: "save users newUser = Inr users'"
    and p: "profile = newUser" "code = 201"
    by (auto simp: post_users_def newUser_def Let_def split: sum.splits)
  from sv have u': "users' = users @ [newUser]"
    by (auto simp: save_def split: if_splits)
  have g: "u_googleId newUser = u_googleId first"
    by (simp add: newUser_def)
  from None have "filter (\<lambda>u. u_googleId u = u_googleId first) users = []"
    by (auto simp: findOne_def find_None_iff filter_empty_conv)
  with g u' have cnt: "length (filter (\<lambda>u. u_googleId u = u_googleId first) users') = 1"
    "length (filter (\<lambda>u. u_googleId u = u_googleId first) users) = 0"
    by simp_all
  from findOne_append_new [OF None g] u' same
  have "post_users users' second = (users', UserJson 201 newUser)"
    by (simp add: post_users_def)
  with p cnt show ?thesis by simp
qed

theorem post_users_idempotent_witness:
  "u_googleId alice_again = u_googleId alice
   \<and> post_users [] alice = ([alice], UserJson 201 alice)
   \<and> post_users [alice] alice_again = ([alice], UserJson 201 alice)
   \<and> length (filter (\<lambda>u. u_googleId u = u_googleId alice) [alice]) = 1"
proof -
  have same: "u_googleId alice_again = u_googleId alice"
    by (simp add: alice_def alice_again_def)
  have first: "post_users [] alice = ([alice], UserJson 201 alice)"
    by (simp add: post_users_def findOne_def save_def alice_def Let_def)
  from post_users_idempotent [OF same first] same first show ?thesis
    by simp
qed

section \<open>A grand total of zero\<close>

text \<open>
  C1. One receipt with one line item of price \<open>0\<close>: the grand total is \<open>0\<close>,
  the division is \<open>0 / 0\<close>, and the percentage of the entry is \<open>NaN\<close>, not
  \<open>0\<close>.
\<close>

theorem zero_total_percentage_nan:
  "spending_summary [free_sample] = [\<lparr>s_name = ''Food'', amount = Num (Fin 0), percentage = NaN\<rparr>]"
  by (simp add: spending_summary_def summary_of_def total_spent_def category_totals_def
      add_item_def free_sample_def mk_receipt_def mk_item_def obj_get_def obj_put_def
      obj_values_def inherited_def method_names_def fl_zero Let_def)

section \<open>Manual expense entry\<close>

lemma parse_float_minus5: "parse_float ''-5'' = Fin (- 5)"
  by (simp add: parse_float_def is_space_def is_digit_def digits_nat_def parse_exponent_def)

lemma number_or_zero:
  "to_number (js_or (Num x) (Num (Fin 0))) = (if x = NaN \<or> x = Fin 0 then Fin 0 else x)"
  by (cases x) (simp_all add: js_or_def)

text \<open>
  C7 as stated fails: the amount \<^verbatim>\<open>"-5"\<close> is stored as the price \<open>-5\<close>,
  which is not a non-negative decimal.
\<close>

theorem manual_price_negative_counterexample:
  "\<not> non_negative_decimal (price (new_item ''7'' refund))"
  by (simp add: new_item_def refund_def non_negative_decimal_def number_or_zero parse_float_minus5)

lemma nth_stored_item:
  "i < length its \<Longrightarrow>
   map (\<lambda>(i, it). new_item (rand (Suc i)) it) (zip [0 ..< length its] its) ! i
     = new_item (rand (Suc i)) (its ! i)"
  by simp

text \<open>
  C7, as amended. In every receipt that manual entry accepts, the stored items are the
  submitted ones in order; the name is the description, or \<open>Unknown\<close> when that is
  absent or empty; the category is the submitted one, or the default when that is absent
  or empty; the price is what \<^verbatim>\<open>parseFloat\<close> reads from the amount, or \<open>0\<close>
  when that is \<open>NaN\<close> or zero. The price is never \<open>NaN\<close>, and a number
  submitted as amount is stored as it is, whatever its sign.
\<close>

theorem manual_item_defaults:
  assumes "post_expenses rand now saved reqBody = ExpenseAdded code rcpt"
  shows "\<exists>its. e_items reqBody = Some its \<and> length (items rcpt) = length its \<and>
     (\<forall>i < length its.
        name (items rcpt ! i) =
          Some (if description (its ! i) = None \<or> description (its ! i) = Some []
                then ''Unknown'' else the (description (its ! i)))
      \<and> category (items rcpt ! i) =
          Some (if e_category (its ! i) = None \<or> e_category (its ! i) = Some []
                then other_category else the (e_category (its ! i)))
      \<and> price (items rcpt ! i) =
          (if parseFloat (e_amount (its ! i)) = NaN \<or> parseFloat (e_amount (its ! i)) = Fin 0
           then Fin 0 else parseFloat (e_amount (its ! i)))
      \<and> price (items rcpt ! i) \<noteq> NaN
      \<and> (\<forall>r. e_amount (its ! i) = JNumber r \<longrightarrow> price (items rcpt ! i) = Fin r))"
proof -
  from assms obtain gid its where its: "e_items reqBody = Some its"
    and r: "rcpt = \<lparr>googleId = gid, receiptId = Some (rand 0), vendor = e_vendor reqBody,
              date = Some now,
              items = map (\<lambda>(i, it). new_item (rand (Suc i)) it) (zip [0 ..< length its] its)\<rparr>"
    by (auto simp: post_expenses_def Let_def split: option.splits if_splits sum.splits)
  have len: "length (items rcpt) = length its"
    by (simp add: r)
  have each: "name (items rcpt ! i) =
          Some (if description (its ! i) = None \<or> description (its ! i) = Some []
                then ''Unknown'' else the (description (its ! i)))
      \<and> category (items rcpt ! i) =
          Some (if e_category (its ! i) = None \<or> e_category (its ! i) = Some []
                then other_category else the (e_category (its ! i)))
      \<and> price (items rcpt ! i) =
          (if parseFloat (e_amount (its ! i)) = NaN \<or> parseFloat (e_amount (its ! i)) = Fin 0
           then Fin 0 else parseFloat (e_amount (its ! i)))
      \<and> price (items rcpt ! i) \<noteq> NaN
      \<and> (\<forall>r. e_amount (its ! i) = JNumber r \<longrightarrow> price (items rcpt ! i) = Fin r)"
    if "i < length its" for i
  proof -
    have st: "items rcpt ! i = new_item (rand (Suc i)) (its ! i)"
      using that by (simp add: r)
    have n: "name (items rcpt ! i) =
          Some (if description (its ! i) = None \<or> description (its ! i) = Some []
                then ''Unknown'' else the (description (its ! i)))"
      by (cases "description (its ! i)") (simp_all add: st new_item_def)
    have c: "category (items rcpt ! i) =
          Some (if e_category (its ! i) = None \<or> e_category (its ! i) = Some []
                then other_category else the (e_category (its ! i)))"
      by (cases "e_category (its ! i)") (simp_all add: st new_item_def)
    have p: "price (items rcpt ! i) =
          (if parseFloat (e_amount (its ! i)) = NaN \<or> parseFloat (e_amount (its ! i)) = Fin 0
           then Fin 0 else parseFloat (e_amount (its ! i)))"
      by (simp add: st new_item_def number_or_zero)
    from p have nn: "price (items rcpt ! i) \<noteq> NaN"
      by (simp split: if_splits)
    from p have num: "\<forall>r. e_amount (its ! i) = JNumber r \<longrightarrow> price (items rcpt ! i) = Fin r"
      by auto
    from n c p nn num show ?thesis by blast
  qed
  from its len each show ?thesis by blast
qed

theorem manual_item_defaults_witness:
  "post_expenses (\<lambda>n. ''7'') 0 (Inr ()) refund_body
     = ExpenseAdded 201 \<lparr>googleId = ''g-1'', receiptId = Some ''7'', vendor = Some ''Shop'',
         date = Some 0,
         items = [\<lparr>itemId = Some ''7'', name = Some ''refund'',
                   category = Some other_category, price = Fin (- 5)\<rparr>]\<rparr>
   \<and> e_items refund_body = Some [refund]"
proof -
  have run: "post_expenses (\<lambda>n. ''7'') 0 (Inr ()) refund_body
     = ExpenseAdded 201 \<lparr>googleId = ''g-1'', receiptId = Some ''7'', vendor = Some ''Shop'',
         date = Some 0,
         items = [new_item ''7'' refund]\<rparr>"
    by (simp add: post_expenses_def refund_body_def Let_def)
  from manual_item_defaults [OF run] obtain its where
    its: "e_items refund_body = Some its" and
    all: "\<forall>i < length its.
        name (items \<lparr>googleId = ''g-1'', receiptId = Some ''7'', vendor = Some ''Shop'',
         date = Some 0, items = [new_item ''7'' refund]\<rparr> ! i) =
          Some (if description (its ! i) = None \<or> description (its ! i) = Some []
                then ''Unknown'' else the (description (its ! i)))" 
    by blast
  from its have "its = [refund]" by (simp add: refund_body_def)
  with all have "name (new_item ''7'' refund) = Some ''refund''"
    by (simp add: refund_def)
  moreover have "new_item ''7'' refund = \<lparr>itemId = Some ''7'', name = Some ''refund'',
                   category = Some other_category, price = Fin (- 5)\<rparr>"
    by (simp add: new_item_def refund_def number_or_zero parse_float_minus5)
  ultimately show ?thesis using run its by (simp add: refund_body_def)
qed

section \<open>When the averages are computed\<close>









lemma js_div_not_NaN: "x \<noteq> NaN \<Longrightarrow> n \<noteq> 0 \<Longrightarrow> js_div x (Fin n) \<noteq> NaN"
  by (cases x) (simp_all add: fl_not_NaN inf_of_sign_def)

lemma good_foldl_set:
  "good av \<Longrightarrow> \<forall>cat \<in> set cats. inherited cat = Undefined \<and> good_value (g cat) \<Longrightarrow>
   good (foldl (\<lambda>av cat. obj_set av cat (g cat)) av cats)"
proof (induction cats arbitrary: av)
  case Nil
  then show ?case by simp
next
  case (Cons cat cats)
  from Cons.prems(2) obtain x where x: "g cat = Num x" "x \<noteq> NaN"
    by (cases "g cat") auto
  from Cons.prems have "good (obj_set av cat (g cat))"
    by (simp add: x good_obj_set)
  from Cons.IH [OF this] Cons.prems(2) show ?case by simp
qed

text \<open>
  The objects that reach the comparison when prices are finite and categories are
  ordinary names: their keys are ordinary names and their values are Numbers other than
  \<open>NaN\<close>.
\<close>

lemma user_totals_good:
  "finite_prices rs \<Longrightarrow> plain_categories rs \<Longrightarrow> good (user_totals rs)"
  by (simp add: user_totals_step foldl_step_good good_Nil ok_items)

lemma averages_good:
  assumes fin: "finite_prices rs" and plain: "plain_categories rs"
    and av: "averages_of rs = Inr averages"
  shows "good averages"
proof -
  define st where "st = foldl pure_all_item ([], []) (owned_items rs)"
  define av' where
    "av' = foldl (\<lambda>av cat. obj_set av cat (avg_of (fst st) (snd st) cat)) [] (obj_keys (fst st))"
  note facts = averages_of_plain [OF fin plain, folded st_def, folded av'_def]
  from facts(1) av have eq: "averages = av'" by simp
  have "inherited cat = Undefined \<and> good_value (avg_of (fst st) (snd st) cat)"
    if cat: "cat \<in> set (obj_keys (fst st))" for cat
  proof -
    from cat facts(2) have k: "inherited cat = Undefined" by (rule good_key_plain [rotated])
    from cat facts(3) obtain it where it: "it \<in> set (all_items rs)" "cat = grouping_key it"
      by auto
    from contributors_nonempty [OF it(1)] have "card (contributors rs cat) \<noteq> 0"
      by (simp add: it(2) finite_contributors)
    then have n: "(of_nat (length (users_of (snd st) cat)) :: rat) \<noteq> 0"
      by (simp add: facts(6))
    have "cur (fst st) cat \<noteq> NaN" using facts(2) by (rule cur_not_NaN)
    with n have "good_value (avg_of (fst st) (snd st) cat)"
      by (simp add: avg_of_def js_div_not_NaN)
    with k show ?thesis by simp
  qed
  then show ?thesis
    unfolding eq av'_def by (intro good_foldl_set) (simp_all add: good_Nil)
qed

section \<open>Percentages and owner totals in binary64\<close>

lemma fl_29_200: "fl (29 / 200) = Fin (5224175567749775 / 36028797018963968)"
  by code_simp

lemma fl_171_200: "fl (171 / 200) = Fin (1925288840700887 / 2251799813685248)"
  by code_simp

lemma fl_share_29:
  "fl (130604389193744375 / 9007199254740992) = Fin (8162774324609023 / 562949953421312)"
  by code_simp

lemma fl_share_171: "fl (48132221017522175 / 562949953421312) = Fin (171 / 2)"
  by code_simp

text \<open>
  The percentages are rounded from binary64 values: \<open>29\<close> of \<open>200\<close> is a share of
  \<open>14.499999999999998\<close> per cent in binary64, which rounds to \<open>14\<close>, where the exact
  share of \<open>14.5\<close> would round to \<open>15\<close>.
\<close>

lemma percentages_of_shares:
  "spending_summary [shares]
     = [\<lparr>s_name = ''Food'', amount = Num (Fin 29), percentage = Fin 14\<rparr>,
        \<lparr>s_name = ''Rent'', amount = Num (Fin 171), percentage = Fin 86\<rparr>]"
  by (simp add: spending_summary_def summary_of_def total_spent_def category_totals_def
      add_item_def shares_def mk_receipt_def mk_item_def obj_get_def obj_put_def obj_values_def
      inherited_def method_names_def fl_zero fl_29_200 fl_171_200 fl_share_29 fl_share_171 Let_def)

lemma spent_user_totals:
  assumes "finite_prices rs" "plain_categories rs" "inherited k = Undefined"
  shows "spent (user_totals rs) k = category_total rs k"
proof -
  have "spent (user_totals rs) k = cur (user_totals rs) k"
    using user_totals_good [OF assms(1,2)] assms(3) by (rule spent_good)
  also have "\<dots> = category_total rs k"
    by (simp add: user_totals_step [OF assms(1,2)] cur_foldl_step cur_Nil category_total_def)
  finally show ?thesis .
qed



end
